theory Spec2Isabelle
  imports Complex_Main "HOL-Library.Code_Target_Nat"
begin

section \<open>JavaScript values held by the recognizer\<close>

text \<open>
  The recognizer of \<^verbatim>\<open>face-recognition.js\<close> keeps, per label, a plain object
  \<^verbatim>\<open>{descriptor, label, enrolledAt}\<close>, and after \<^verbatim>\<open>loadEnrolledFaces\<close> whatever
  \<^verbatim>\<open>JSON.parse\<close> returned for that label. Both are JSON-shaped values, so one
  datatype covers them. A number is a real or one of the three numbers that are not
  finite; rounding to single and double precision is outside the model. A string is
  the list of its code units. An object is the list of its own properties in the
  order \<^verbatim>\<open>Object.entries\<close> lists them.
\<close>

datatype number = Finite real | NaN | PosInfinity | NegInfinity

fun is_finite :: "number \<Rightarrow> bool" where
  "is_finite (Finite x) = True"
| "is_finite n = False"

datatype json =
    JNull
  | JBool bool
  | JNum number
  | JStr string
  | JArr "json list"
  | JObj "(string \<times> json) list"

datatype error =
    TypeError
  | SyntaxError
  | RangeError
  | QuotaExceededError
  | Error string

type_synonym descriptor = "number list"

type_synonym props = "(string \<times> json) list"

subsection \<open>Own property order of ordinary objects\<close>

text \<open>
  An ordinary object lists its array-index keys first, in ascending numeric order,
  then its other string keys in creation order. An array index is a key that is the
  decimal form of its own numeric value, an integer below \<open>2^32 - 1\<close>.
\<close>

definition digit_char :: "nat \<Rightarrow> char" where
  "digit_char n = ''0123456789'' ! n"

fun string_of_nat :: "nat \<Rightarrow> string" where
  "string_of_nat n =
     (if n < 10 then [digit_char n]
      else string_of_nat (n div 10) @ [digit_char (n mod 10)])"

declare string_of_nat.simps [simp del]

definition is_digit :: "char \<Rightarrow> bool" where
  "is_digit c = (48 \<le> (of_char c :: nat) \<and> (of_char c :: nat) \<le> 57)"

definition digit_value :: "char \<Rightarrow> nat" where
  "digit_value c = (of_char c :: nat) - 48"

definition nat_of_digits :: "string \<Rightarrow> nat" where
  "nat_of_digits s = foldl (\<lambda>n c. 10 * n + digit_value c) 0 s"

definition array_index :: "string \<Rightarrow> nat option" where
  "array_index s =
     (if list_all is_digit s then
        (if string_of_nat (nat_of_digits s) = s \<and> nat_of_digits s < 4294967295
         then Some (nat_of_digits s) else None)
      else None)"

text \<open>Place a new array-index key \<open>i\<close> before the first larger index or named key.\<close>

fun put_index :: "nat \<Rightarrow> string \<Rightarrow> json \<Rightarrow> props \<Rightarrow> props" where
  "put_index i k v [] = [(k, v)]"
| "put_index i k v ((k', v') # ps) =
     (case array_index k' of
        Some j \<Rightarrow> if j < i then (k', v') # put_index i k v ps else (k, v) # (k', v') # ps
      | None \<Rightarrow> (k, v) # (k', v') # ps)"

text \<open>\<^verbatim>\<open>Map.prototype.set\<close>: an existing key keeps its place, a new key goes last.\<close>

fun Map_set :: "string \<Rightarrow> 'v \<Rightarrow> (string \<times> 'v) list \<Rightarrow> (string \<times> 'v) list" where
  "Map_set k v [] = [(k, v)]"
| "Map_set k v ((k', v') # m) =
     (if k' = k then (k, v) # m else (k', v') # Map_set k v m)"

definition Map_has :: "string \<Rightarrow> (string \<times> 'v) list \<Rightarrow> bool" where
  "Map_has k m = (k \<in> set (map fst m))"

definition Map_delete :: "string \<Rightarrow> (string \<times> 'v) list \<Rightarrow> (string \<times> 'v) list" where
  "Map_delete k m = filter (\<lambda>e. fst e \<noteq> k) m"

definition Map_keys :: "(string \<times> 'v) list \<Rightarrow> string list" where
  "Map_keys m = map fst m"

text \<open>\<^verbatim>\<open>CreateDataProperty\<close> on an ordinary object.\<close>

definition obj_define :: "props \<Rightarrow> string \<Rightarrow> json \<Rightarrow> props" where
  "obj_define ps k v =
     (if Map_has k ps then Map_set k v ps
      else case array_index k of
             Some i \<Rightarrow> put_index i k v ps
           | None \<Rightarrow> ps @ [(k, v)])"

text \<open>Defining a sequence of properties, one after the other.\<close>

definition define_properties :: "props \<Rightarrow> (string \<times> json) list \<Rightarrow> props" where
  "define_properties ps es = foldl (\<lambda>qs e. obj_define qs (fst e) (snd e)) ps es"

text \<open>\<^verbatim>\<open>Object.fromEntries\<close> and \<^verbatim>\<open>new Map(entries)\<close> take the entries in order.\<close>

definition Object_fromEntries :: "(string \<times> json) list \<Rightarrow> json" where
  "Object_fromEntries es = JObj (define_properties [] es)"

definition Map_new :: "(string \<times> 'v) list \<Rightarrow> (string \<times> 'v) list" where
  "Map_new es = foldl (\<lambda>m e. Map_set (fst e) (snd e) m) [] es"

text \<open>The elements of a string or an array under their indices in decimal form.\<close>

definition indexed :: "json list \<Rightarrow> props" where
  "indexed xs = zip (map string_of_nat [0..<length xs]) xs"

text \<open>
  \<^verbatim>\<open>Object.entries(v)\<close>: \<^verbatim>\<open>null\<close> throws, a number or boolean has no own
  properties, a string and an array list their elements by index.
\<close>

fun Object_entries :: "json \<Rightarrow> error + props" where
  "Object_entries JNull = Inl TypeError"
| "Object_entries (JBool b) = Inr []"
| "Object_entries (JNum n) = Inr []"
| "Object_entries (JStr s) = Inr (indexed (map (\<lambda>c. JStr [c]) s))"
| "Object_entries (JArr xs) = Inr (indexed xs)"
| "Object_entries (JObj ps) = Inr ps"

text \<open>Reading the property \<^verbatim>\<open>descriptor\<close> of a stored value: \<^verbatim>\<open>null.descriptor\<close> throws.\<close>

fun get_descriptor :: "json \<Rightarrow> error + json option" where
  "get_descriptor JNull = Inl TypeError"
| "get_descriptor (JObj ps) = Inr (map_of ps ''descriptor'')"
| "get_descriptor v = Inr None"

subsection \<open>Persisted text\<close>

text \<open>
  The value under the key \<^verbatim>\<open>enrolledFaces\<close> of \<^verbatim>\<open>localStorage\<close> is a text. A text
  is the empty string, a text that \<^verbatim>\<open>JSON.parse\<close> rejects, or a JSON text, given by
  its syntax tree (members as written, duplicates included). A number of a syntax
  tree is the number its literal parses to, an infinite one when the literal
  overflows; no literal parses to NaN.
\<close>

datatype stored_text = EmptyText | NonJsonText | JsonText json

definition truthy :: "stored_text option \<Rightarrow> bool" where
  "truthy saved = (case saved of None \<Rightarrow> False | Some EmptyText \<Rightarrow> False | Some t \<Rightarrow> True)"

text \<open>\<^verbatim>\<open>JSON.parse\<close> builds the value of a syntax tree, defining the members in order.\<close>

fun internalize :: "json \<Rightarrow> json" where
  "internalize (JArr xs) = JArr (map internalize xs)"
| "internalize (JObj ps) =
     JObj (define_properties [] (map (\<lambda>e. (fst e, internalize (snd e))) ps))"
| "internalize v = v"

definition JSON_parse :: "stored_text \<Rightarrow> error + json" where
  "JSON_parse t = (case t of JsonText j \<Rightarrow> Inr (internalize j) | _ \<Rightarrow> Inl SyntaxError)"

text \<open>
  \<^verbatim>\<open>JSON.stringify\<close> writes a finite number as its literal and NaN, Infinity and
  -Infinity as \<^verbatim>\<open>null\<close>, inside arrays and objects as well; the members of an
  object are written in own property order.
\<close>

fun serialized :: "json \<Rightarrow> json" where
  "serialized (JNum x) = (if is_finite x then JNum x else JNull)"
| "serialized (JArr xs) = JArr (map serialized xs)"
| "serialized (JObj ps) = JObj (map (\<lambda>e. (fst e, serialized (snd e))) ps)"
| "serialized v = v"

definition JSON_stringify :: "json \<Rightarrow> stored_text" where
  "JSON_stringify v = JsonText (serialized v)"

section \<open>What the browser and the face library contribute\<close>

text \<open>
  Three behaviours are decided outside the sources and are taken as parameters:
  what \<^verbatim>\<open>new Float32Array(x)\<close> yields for an argument other than
  \<^verbatim>\<open>undefined\<close>, \<^verbatim>\<open>null\<close> or an array of numbers, booleans and nulls; which texts
  \<^verbatim>\<open>localStorage.setItem\<close> accepts (it throws when the quota is exceeded); and the
  vector distance of the face library.
\<close>

record platform =
  Float32Array_of :: "json option \<Rightarrow> error + descriptor"
  setItem_accepts :: "stored_text \<Rightarrow> bool"
  metric :: "descriptor \<Rightarrow> descriptor \<Rightarrow> real"

text \<open>
  The elements of an array that the typed-array constructor turns into numbers
  without reading a string or an object: a number is itself, \<^verbatim>\<open>null\<close> is 0,
  \<^verbatim>\<open>false\<close> is 0 and \<^verbatim>\<open>true\<close> is 1.
\<close>

fun is_num :: "json \<Rightarrow> bool" where
  "is_num (JNum x) = True"
| "is_num JNull = True"
| "is_num (JBool b) = True"
| "is_num v = False"

fun num_of :: "json \<Rightarrow> number" where
  "num_of (JNum x) = x"
| "num_of (JBool b) = Finite (if b then 1 else 0)"
| "num_of v = Finite 0"

text \<open>\<^verbatim>\<open>new Float32Array(arg)\<close>, where \<open>None\<close> is \<^verbatim>\<open>undefined\<close>.\<close>

definition Float32Array_new :: "platform \<Rightarrow> json option \<Rightarrow> error + descriptor" where
  "Float32Array_new p arg =
     (case arg of
        None \<Rightarrow> Inr []
      | Some JNull \<Rightarrow> Inr []
      | Some (JArr xs) \<Rightarrow>
          if list_all is_num xs then Inr (map num_of xs) else Float32Array_of p arg
      | Some v \<Rightarrow> Float32Array_of p arg)"

text \<open>\<^verbatim>\<open>Array.from(typedArray)\<close>: a new array of the same numbers.\<close>

definition Array_from :: "descriptor \<Rightarrow> json" where
  "Array_from d = JArr (map JNum d)"

subsection \<open>The matcher of the face library\<close>

text \<open>
  Modelled from the spec: the constructors \<^verbatim>\<open>faceapi.LabeledFaceDescriptors\<close> and
  \<^verbatim>\<open>faceapi.FaceMatcher\<close> of the external face library, absent from the sources.
  Following \<^verbatim>\<open>build\<close> in section 4.2 of the specification, a matcher is the list
  of the labels with their descriptors, to be searched; it keeps the threshold it
  was constructed with.
\<close>

datatype labeled = LabeledFaceDescriptors string "descriptor list"

record FaceMatcher =
  labeledDescriptors :: "labeled list"
  distanceThreshold :: real

type_synonym FaceMatch = "string \<times> real"

fun label_of :: "labeled \<Rightarrow> string" where
  "label_of (LabeledFaceDescriptors l ds) = l"

fun descriptors_of :: "labeled \<Rightarrow> descriptor list" where
  "descriptors_of (LabeledFaceDescriptors l ds) = ds"

definition candidates :: "FaceMatcher \<Rightarrow> (string \<times> descriptor) list" where
  "candidates m =
     concat (map (\<lambda>ld. map (Pair (label_of ld)) (descriptors_of ld)) (labeledDescriptors m))"

text \<open>
  Modelled from the spec: the search inside \<^verbatim>\<open>findBestMatch\<close> (section 4.2), which
  selects the closest candidate, the first encountered among equally close ones.
\<close>

fun nearest ::
  "(descriptor \<Rightarrow> descriptor \<Rightarrow> real) \<Rightarrow> descriptor \<Rightarrow> (string \<times> descriptor) list
     \<Rightarrow> FaceMatch option" where
  "nearest dm q [] = None"
| "nearest dm q ((l, e) # rest) =
     (case nearest dm q rest of
        None \<Rightarrow> Some (l, dm q e)
      | Some (l', r) \<Rightarrow> if dm q e \<le> r then Some (l, dm q e) else Some (l', r))"

text \<open>
  Modelled from the spec: \<^verbatim>\<open>faceapi.FaceMatcher.findBestMatch\<close>, which belongs to
  the external face library and is absent from the sources. Following section 4.2 of
  the specification, it computes the distance from the query to every enrolled
  descriptor, selects the minimum, answers \<^verbatim>\<open>unknown\<close> with that minimum when it
  exceeds the threshold and the matched label with its distance otherwise; with
  nothing enrolled it answers \<^verbatim>\<open>unknown\<close> with the sentinel distance 1. The
  threshold is the argument of the call, as the specification has it.
\<close>

definition findBestMatch :: "platform \<Rightarrow> FaceMatcher \<Rightarrow> descriptor \<Rightarrow> real \<Rightarrow> FaceMatch" where
  "findBestMatch p m q threshold =
     (case nearest (metric p) q (candidates m) of
        None \<Rightarrow> (''unknown'', 1)
      | Some (l, r) \<Rightarrow> if threshold < r then (''unknown'', r) else (l, r))"

section \<open>The recognizer\<close>

datatype console_event =
    FaceEnrolled string
  | FaceRemoved string
  | AllCleared
  | MatcherUpdated nat
  | LoadedFaces nat
  | ErrorUpdatingMatcher error
  | ErrorSaving error
  | ErrorLoading error

text \<open>
  The fields of \<^verbatim>\<open>FaceRecognizer\<close>, with the two pieces of the browser it writes
  to: the item \<^verbatim>\<open>enrolledFaces\<close> of \<^verbatim>\<open>localStorage\<close> and the console.
\<close>

record recognizer =
  enrolledFaces :: props
  faceMatcher :: "FaceMatcher option"
  localStorage :: "stored_text option"
  console :: "console_event list"

text \<open>\<^verbatim>\<open>Array.prototype.map\<close> with a callback that may throw: the first throw ends it.\<close>

fun map_throwing :: "('a \<Rightarrow> error + 'b) \<Rightarrow> 'a list \<Rightarrow> error + 'b list" where
  "map_throwing f [] = Inr []"
| "map_throwing f (x # xs) =
     (case f x of
        Inl e \<Rightarrow> Inl e
      | Inr y \<Rightarrow> (case map_throwing f xs of Inl e \<Rightarrow> Inl e | Inr ys \<Rightarrow> Inr (y # ys)))"

definition labeledDescriptor :: "platform \<Rightarrow> string \<times> json \<Rightarrow> error + labeled" where
  "labeledDescriptor p entry =
     (case get_descriptor (snd entry) of
        Inl e \<Rightarrow> Inl e
      | Inr arg \<Rightarrow>
          (case Float32Array_new p arg of
             Inl e \<Rightarrow> Inl e
           | Inr d \<Rightarrow> Inr (LabeledFaceDescriptors (fst entry) [d])))"

definition updateFaceMatcher :: "platform \<Rightarrow> recognizer \<Rightarrow> recognizer" where
  "updateFaceMatcher p s =
     (if length (enrolledFaces s) = 0 then s\<lparr>faceMatcher := None\<rparr>
      else case map_throwing (labeledDescriptor p) (enrolledFaces s) of
             Inr lds \<Rightarrow>
               s\<lparr>faceMatcher := Some \<lparr>labeledDescriptors = lds, distanceThreshold = 0.6\<rparr>,
                  console := console s @ [MatcherUpdated (length lds)]\<rparr>
           | Inl e \<Rightarrow>
               s\<lparr>console := console s @ [ErrorUpdatingMatcher e], faceMatcher := None\<rparr>)"

definition saveEnrolledFaces :: "platform \<Rightarrow> recognizer \<Rightarrow> recognizer" where
  "saveEnrolledFaces p s =
     (let facesData = Object_fromEntries (enrolledFaces s);
          t = JSON_stringify facesData
      in if setItem_accepts p t then s\<lparr>localStorage := Some t\<rparr>
         else s\<lparr>console := console s @ [ErrorSaving QuotaExceededError]\<rparr>)"

text \<open>The body of the \<^verbatim>\<open>try\<close> block of \<^verbatim>\<open>loadEnrolledFaces\<close>.\<close>

definition loadEnrolledFaces_try :: "platform \<Rightarrow> recognizer \<Rightarrow> error + recognizer" where
  "loadEnrolledFaces_try p s =
     (case localStorage s of
        None \<Rightarrow> Inr s
      | Some saved \<Rightarrow>
          if truthy (Some saved) then
            (case JSON_parse saved of
               Inl e \<Rightarrow> Inl e
             | Inr facesData \<Rightarrow>
                 (case Object_entries facesData of
                    Inl e \<Rightarrow> Inl e
                  | Inr entries \<Rightarrow>
                      let s1 = updateFaceMatcher p (s\<lparr>enrolledFaces := Map_new entries\<rparr>)
                      in Inr (s1\<lparr>console :=
                                console s1 @ [LoadedFaces (length (enrolledFaces s1))]\<rparr>)))
          else Inr s)"

definition loadEnrolledFaces :: "platform \<Rightarrow> recognizer \<Rightarrow> recognizer" where
  "loadEnrolledFaces p s =
     (case loadEnrolledFaces_try p s of
        Inr s' \<Rightarrow> s'
      | Inl e \<Rightarrow> s\<lparr>console := console s @ [ErrorLoading e], enrolledFaces := []\<rparr>)"

text \<open>\<^verbatim>\<open>new FaceRecognizer()\<close> in a browser whose storage item is \<open>saved\<close>.\<close>

definition FaceRecognizer :: "platform \<Rightarrow> stored_text option \<Rightarrow> recognizer" where
  "FaceRecognizer p saved =
     loadEnrolledFaces p
       \<lparr>enrolledFaces = [], faceMatcher = None, localStorage = saved, console = []\<rparr>"

text \<open>
  \<^verbatim>\<open>enrollFace(faceDescriptor, label)\<close>. The descriptor is a \<^verbatim>\<open>Float32Array\<close> or
  absent (\<open>None\<close>); \<open>now\<close> is the text of \<^verbatim>\<open>new Date().toISOString()\<close>. The result
  pairs what the call returns or throws with the state it leaves.
\<close>

definition enrollFace ::
  "platform \<Rightarrow> string \<Rightarrow> descriptor option \<Rightarrow> string \<Rightarrow> recognizer
     \<Rightarrow> (error + bool) \<times> recognizer" where
  "enrollFace p now faceDescriptor lbl s =
     (case faceDescriptor of
        None \<Rightarrow> (Inl (Error ''Face descriptor and label are required''), s)
      | Some d \<Rightarrow>
          if lbl = [] then (Inl (Error ''Face descriptor and label are required''), s)
          else
            let faceData = JObj [(''descriptor'', Array_from d),
                                 (''label'', JStr lbl),
                                 (''enrolledAt'', JStr now)];
                s1 = s\<lparr>enrolledFaces := Map_set lbl faceData (enrolledFaces s)\<rparr>;
                s2 = updateFaceMatcher p s1;
                s3 = saveEnrolledFaces p s2
            in (Inr True, s3\<lparr>console := console s3 @ [FaceEnrolled lbl]\<rparr>))"

definition removeFace :: "platform \<Rightarrow> string \<Rightarrow> recognizer \<Rightarrow> bool \<times> recognizer" where
  "removeFace p lbl s =
     (if Map_has lbl (enrolledFaces s) then
        let s1 = s\<lparr>enrolledFaces := Map_delete lbl (enrolledFaces s)\<rparr>;
            s2 = updateFaceMatcher p s1;
            s3 = saveEnrolledFaces p s2
        in (True, s3\<lparr>console := console s3 @ [FaceRemoved lbl]\<rparr>)
      else (False, s))"

definition clearAllFaces :: "platform \<Rightarrow> recognizer \<Rightarrow> recognizer" where
  "clearAllFaces p s =
     (let s1 = saveEnrolledFaces p (s\<lparr>enrolledFaces := [], faceMatcher := None\<rparr>)
      in s1\<lparr>console := console s1 @ [AllCleared]\<rparr>)"

text \<open>
  \<^verbatim>\<open>String.prototype.trim\<close>, for the white space among the code units below 256:
  tab, line feed, vertical tab, form feed, carriage return, space, no-break space.
\<close>

definition is_space :: "char \<Rightarrow> bool" where
  "is_space c = ((of_char c :: nat) \<in> {9, 10, 11, 12, 13, 32, 160})"

definition trim :: "string \<Rightarrow> string" where
  "trim s = rev (dropWhile is_space (rev (dropWhile is_space s)))"

text \<open>
  \<^verbatim>\<open>enrollFaceWithPrompt(faceDescriptor)\<close>. The user answers the prompt with a text
  or cancels it (\<open>None\<close>); \<open>overwrite\<close> is the answer to the confirmation, which is
  asked only when the trimmed label is enrolled already.
\<close>

definition enrollFaceWithPrompt ::
  "platform \<Rightarrow> string \<Rightarrow> string option \<Rightarrow> bool \<Rightarrow> descriptor option \<Rightarrow> recognizer
     \<Rightarrow> (error + bool) \<times> recognizer" where
  "enrollFaceWithPrompt p now answer overwrite faceDescriptor s =
     (case answer of
        None \<Rightarrow> (Inl (Error ''Name is required for face enrollment''), s)
      | Some lbl \<Rightarrow>
          if lbl = [] \<or> trim lbl = []
          then (Inl (Error ''Name is required for face enrollment''), s)
          else if Map_has (trim lbl) (enrolledFaces s) \<and> \<not> overwrite
          then (Inl (Error ''Enrollment cancelled''), s)
          else enrollFace p now faceDescriptor (trim lbl) s)"

definition getEnrolledFaces :: "recognizer \<Rightarrow> string list" where
  "getEnrolledFaces s = Map_keys (enrolledFaces s)"

definition getEnrollmentCount :: "recognizer \<Rightarrow> nat" where
  "getEnrollmentCount s = length (enrolledFaces s)"

subsection \<open>Recognition\<close>

record detection =
  descriptor :: "descriptor option"

record RecognitionResult =
  label :: string
  distance :: real
  isMatch :: bool

text \<open>
  The callback of \<^verbatim>\<open>detections.forEach\<close>: one result pushed per detection. The
  threshold is the one the caller passes; the default 0.6 of the parameter stands
  in when the caller passes none.
\<close>

definition recognizeOne ::
  "platform \<Rightarrow> FaceMatcher \<Rightarrow> real \<Rightarrow> RecognitionResult list \<Rightarrow> detection
     \<Rightarrow> RecognitionResult list" where
  "recognizeOne p m confidenceThreshold results det =
     (case descriptor det of
        Some q \<Rightarrow>
          let bestMatch = findBestMatch p m q confidenceThreshold
          in results @ [\<lparr>label = fst bestMatch, distance = snd bestMatch,
                          isMatch = (fst bestMatch \<noteq> ''unknown'')\<rparr>]
      | None \<Rightarrow> results @ [\<lparr>label = ''unknown'', distance = 1.0, isMatch = False\<rparr>])"

definition recognizeFaces ::
  "platform \<Rightarrow> recognizer \<Rightarrow> detection list \<Rightarrow> real \<Rightarrow> RecognitionResult list" where
  "recognizeFaces p s detections confidenceThreshold =
     (case faceMatcher s of
        None \<Rightarrow> []
      | Some m \<Rightarrow>
          if length detections = 0 then []
          else foldl (recognizeOne p m confidenceThreshold) [] detections)"

text \<open>What the callback pushes for one detection.\<close>

definition resultFor ::
  "platform \<Rightarrow> FaceMatcher \<Rightarrow> real \<Rightarrow> detection \<Rightarrow> RecognitionResult" where
  "resultFor p m t det =
     (case descriptor det of
        Some q \<Rightarrow> \<lparr>label = fst (findBestMatch p m q t),
                   distance = snd (findBestMatch p m q t),
                   isMatch = (fst (findBestMatch p m q t) \<noteq> ''unknown'')\<rparr>
      | None \<Rightarrow> \<lparr>label = ''unknown'', distance = 1, isMatch = False\<rparr>)"

subsection \<open>States the application can reach\<close>

text \<open>
  The application constructs a recognizer (which loads once), then enrolls, removes
  and clears; an enrolment through the prompt ends in \<^verbatim>\<open>enrollFace\<close> or changes
  nothing. Two recognizers of one page share \<^verbatim>\<open>localStorage\<close>, so the stored item
  may also change under a recognizer between two of its calls.
\<close>

inductive reachable :: "platform \<Rightarrow> recognizer \<Rightarrow> bool" for p :: platform where
  constructed: "reachable p (FaceRecognizer p saved)"
| enrolled: "reachable p s \<Longrightarrow> reachable p (snd (enrollFace p now faceDescriptor lbl s))"
| removed: "reachable p s \<Longrightarrow> reachable p (snd (removeFace p lbl s))"
| cleared: "reachable p s \<Longrightarrow> reachable p (clearAllFaces p s)"
| stored: "reachable p s \<Longrightarrow> reachable p (s\<lparr>localStorage := saved\<rparr>)"

subsection \<open>A concrete browser for the examples\<close>

fun real_of :: "number \<Rightarrow> real" where
  "real_of (Finite x) = x"
| "real_of n = 0"

definition manhattan :: "descriptor \<Rightarrow> descriptor \<Rightarrow> real" where
  "manhattan a b =
     sum_list (map (\<lambda>xy. \<bar>real_of (fst xy) - real_of (snd xy)\<bar>) (zip a b))"

definition no_conversion :: "json option \<Rightarrow> error + descriptor" where
  "no_conversion arg = Inl TypeError"

definition unlimited :: "stored_text \<Rightarrow> bool" where
  "unlimited t = True"

definition demo_platform :: platform where
  "demo_platform =
     \<lparr>Float32Array_of = no_conversion, setItem_accepts = unlimited, metric = manhattan\<rparr>"

text \<open>Alice is enrolled with the descriptor \<open>[1, 2]\<close> in a browser without stored item.\<close>

definition alice_store :: recognizer where
  "alice_store =
     snd (enrollFace demo_platform ''2024-01-01T00:00:00.000Z'' (Some [Finite 1, Finite 2]) ''Alice''
            (FaceRecognizer demo_platform None))"

text \<open>Bob is enrolled first, then a face under the label \<^verbatim>\<open>7\<close>.\<close>

definition bob_seven_store :: recognizer where
  "bob_seven_store =
     snd (enrollFace demo_platform ''2024-01-04T00:00:00.000Z'' (Some [Finite 7, Finite 7]) ''7''
       (snd (enrollFace demo_platform ''2024-01-03T00:00:00.000Z'' (Some [Finite 5, Finite 6]) ''Bob''
          (FaceRecognizer demo_platform None))))"

subsection \<open>Predicates used by the invariants\<close>

text \<open>An empty map comes with no matcher.\<close>

definition matcher_follows_store :: "recognizer \<Rightarrow> bool" where
  "matcher_follows_store s = (enrolledFaces s \<noteq> [] \<or> faceMatcher s = None)"

text \<open>The typed-array constructor accepts the descriptor stored in an entry.\<close>

definition converts :: "platform \<Rightarrow> string \<times> json \<Rightarrow> bool" where
  "converts p entry = (case labeledDescriptor p entry of Inl e \<Rightarrow> False | Inr ld \<Rightarrow> True)"

subsection \<open>Replaying a sequence of calls\<close>

text \<open>
  A call of \<^verbatim>\<open>enrollFace\<close> (with the time it reads, its descriptor and its label)
  or of \<^verbatim>\<open>removeFace\<close>. A caller that catches what \<^verbatim>\<open>enrollFace\<close> throws goes
  on with the state the call left.
\<close>

datatype operation =
    Enroll string "descriptor option" string
  | Remove string

fun apply_operation :: "platform \<Rightarrow> recognizer \<Rightarrow> operation \<Rightarrow> recognizer" where
  "apply_operation p s (Enroll now faceDescriptor lbl) = snd (enrollFace p now faceDescriptor lbl s)"
| "apply_operation p s (Remove lbl) = snd (removeFace p lbl s)"

definition replay :: "platform \<Rightarrow> operation list \<Rightarrow> recognizer \<Rightarrow> recognizer" where
  "replay p ops s = foldl (apply_operation p) s ops"

fun operation_label :: "operation \<Rightarrow> string" where
  "operation_label (Enroll now faceDescriptor lbl) = lbl"
| "operation_label (Remove lbl) = lbl"

fun is_enroll :: "operation \<Rightarrow> bool" where
  "is_enroll (Enroll now faceDescriptor lbl) = True"
| "is_enroll (Remove lbl) = False"

text \<open>An enrolment that passes the input check of \<^verbatim>\<open>enrollFace\<close>; every removal.\<close>

fun accepted :: "operation \<Rightarrow> bool" where
  "accepted (Enroll now faceDescriptor lbl) = (faceDescriptor \<noteq> None \<and> lbl \<noteq> [])"
| "accepted (Remove lbl) = True"

text \<open>The last operation of the sequence on the label is an enrolment.\<close>

definition last_is_enroll :: "string \<Rightarrow> operation list \<Rightarrow> bool" where
  "last_is_enroll lbl ops =
     (case rev (filter (\<lambda>x. operation_label x = lbl) ops) of
        [] \<Rightarrow> False
      | x # earlier \<Rightarrow> is_enroll x)"

subsection \<open>Values as the engine holds them\<close>

text \<open>
  The key \<open>k\<close> is listed before the key \<open>k'\<close> in the own property order, whichever
  was created first: a smaller index before a larger one, an index before a name. Two
  names keep their creation order.
\<close>

definition key_before :: "string \<Rightarrow> string \<Rightarrow> bool" where
  "key_before k k' =
     (case array_index k of
        Some i \<Rightarrow> (case array_index k' of Some j \<Rightarrow> i < j | None \<Rightarrow> True)
      | None \<Rightarrow> (case array_index k' of Some j \<Rightarrow> False | None \<Rightarrow> True))"

definition own_order :: "string list \<Rightarrow> bool" where
  "own_order ks = (distinct ks \<and> sorted_wrt key_before ks)"

text \<open>
  A value of the running program, as opposed to a syntax tree: each of its objects
  has distinct keys, listed in own property order.
\<close>

fun js_value :: "json \<Rightarrow> bool" where
  "js_value (JArr xs) = list_all js_value xs"
| "js_value (JObj ps) = (own_order (map fst ps) \<and> list_all (\<lambda>e. js_value (snd e)) ps)"
| "js_value v = True"

definition js_values :: "(string \<times> json) list \<Rightarrow> bool" where
  "js_values m = list_all (\<lambda>e. js_value (snd e)) m"

text \<open>Every number inside the value is finite.\<close>

fun all_finite :: "json \<Rightarrow> bool" where
  "all_finite (JNum x) = is_finite x"
| "all_finite (JArr xs) = list_all all_finite xs"
| "all_finite (JObj ps) = list_all (\<lambda>e. all_finite (snd e)) ps"
| "all_finite v = True"

text \<open>Alice is enrolled with a descriptor whose second element is NaN.\<close>

definition nan_store :: recognizer where
  "nan_store =
     snd (enrollFace demo_platform ''2024-01-05T00:00:00.000Z'' (Some [Finite 1, NaN]) ''Alice''
            (FaceRecognizer demo_platform None))"

section \<open>Descriptors as objects on the heap\<close>

text \<open>
  A descriptor handed to \<^verbatim>\<open>enrollFace\<close> is an object its caller keeps and may write
  to later. To see what the recognizer shares with its caller, arrays of numbers
  are here cells of a heap: a reference is a position in the list of cells,
  allocation appends a cell, and writing replaces the contents of one.
\<close>

type_synonym ref = nat

type_synonym heap = "descriptor list"

definition deref :: "heap \<Rightarrow> ref \<Rightarrow> descriptor" where
  "deref h r = (if r < length h then h ! r else [])"

text \<open>\<^verbatim>\<open>Array.from(faceDescriptor)\<close>: a new cell holding the elements read now.\<close>

definition Array_from_ref :: "heap \<Rightarrow> ref \<Rightarrow> heap \<times> ref" where
  "Array_from_ref h r = (h @ [deref h r], length h)"

text \<open>
  A value of the map: the object \<^verbatim>\<open>{descriptor, label, enrolledAt}\<close> built by
  \<^verbatim>\<open>enrollFace\<close>, whose descriptor is a reference, or a value that
  \<^verbatim>\<open>JSON.parse\<close> built, which nothing outside the recognizer refers to.
\<close>

datatype stored_face =
    FaceData ref string string
  | Parsed json

record recognizer_refs =
  enrolledFaces_refs :: "(string \<times> stored_face) list"
  faceMatcher_refs :: "FaceMatcher option"
  localStorage_refs :: "stored_text option"
  console_refs :: "console_event list"

fun face_value :: "heap \<Rightarrow> stored_face \<Rightarrow> json" where
  "face_value h (FaceData r lbl now) =
     JObj [(''descriptor'', Array_from (deref h r)), (''label'', JStr lbl),
           (''enrolledAt'', JStr now)]"
| "face_value h (Parsed v) = v"

text \<open>What the recognizer holds, reading every descriptor in the heap.\<close>

definition view :: "heap \<Rightarrow> recognizer_refs \<Rightarrow> recognizer" where
  "view h t =
     \<lparr>enrolledFaces = map (\<lambda>e. (fst e, face_value h (snd e))) (enrolledFaces_refs t),
      faceMatcher = faceMatcher_refs t,
      localStorage = localStorage_refs t,
      console = console_refs t\<rparr>"

text \<open>
  \<^verbatim>\<open>updateFaceMatcher\<close> and \<^verbatim>\<open>saveEnrolledFaces\<close> read the stored values, each
  descriptor in the heap of the moment, and write the matcher, the stored item and
  the console.
\<close>

definition updateFaceMatcher_refs :: "platform \<Rightarrow> heap \<Rightarrow> recognizer_refs \<Rightarrow> recognizer_refs" where
  "updateFaceMatcher_refs p h t =
     (let s = updateFaceMatcher p (view h t)
      in t\<lparr>faceMatcher_refs := faceMatcher s, console_refs := console s\<rparr>)"

definition saveEnrolledFaces_refs :: "platform \<Rightarrow> heap \<Rightarrow> recognizer_refs \<Rightarrow> recognizer_refs" where
  "saveEnrolledFaces_refs p h t =
     (let s = saveEnrolledFaces p (view h t)
      in t\<lparr>localStorage_refs := localStorage s, console_refs := console s\<rparr>)"

text \<open>\<^verbatim>\<open>enrollFace\<close> again, its descriptor now a reference into the heap.\<close>

definition enrollFace_refs ::
  "platform \<Rightarrow> string \<Rightarrow> heap \<Rightarrow> ref option \<Rightarrow> string \<Rightarrow> recognizer_refs
     \<Rightarrow> (error + bool) \<times> heap \<times> recognizer_refs" where
  "enrollFace_refs p now h faceDescriptor lbl t =
     (case faceDescriptor of
        None \<Rightarrow> (Inl (Error ''Face descriptor and label are required''), h, t)
      | Some r \<Rightarrow>
          if lbl = [] then (Inl (Error ''Face descriptor and label are required''), h, t)
          else
            let (h1, copy) = Array_from_ref h r;
                faceData = FaceData copy lbl now;
                t1 = t\<lparr>enrolledFaces_refs := Map_set lbl faceData (enrolledFaces_refs t)\<rparr>;
                t2 = updateFaceMatcher_refs p h1 t1;
                t3 = saveEnrolledFaces_refs p h1 t2
            in (Inr True, h1, t3\<lparr>console_refs := console_refs t3 @ [FaceEnrolled lbl]\<rparr>))"

text \<open>The cells the recognizer refers to.\<close>

fun face_refs :: "stored_face \<Rightarrow> ref list" where
  "face_refs (FaceData r lbl now) = [r]"
| "face_refs (Parsed v) = []"

definition owned :: "recognizer_refs \<Rightarrow> ref list" where
  "owned t = concat (map (\<lambda>e. face_refs (snd e)) (enrolledFaces_refs t))"

section \<open>Maps and the derived state\<close>

lemma Map_set_keys: "fst ` set (Map_set k v m) = insert k (fst ` set m)"
proof (induction m)
  case Nil
  show ?case by simp
next
  case (Cons e m)
  obtain k' v' where e: "e = (k', v')" by (cases e)
  show ?case unfolding e using Cons.IH by (simp add: insert_commute)
qed

lemma Map_set_distinct: "distinct (map fst m) \<Longrightarrow> distinct (map fst (Map_set k v m))"
  by (induction m) (auto simp: Map_set_keys split: if_splits)

lemma Map_set_map_of: "map_of (Map_set k v m) = (map_of m)(k \<mapsto> v)"
  by (induction m) auto

lemma Map_set_not_Nil: "Map_set k v m \<noteq> []"
  by (cases m) (auto split: if_splits)

lemma Map_delete_keys: "fst ` set (Map_delete k m) = fst ` set m - {k}"
  by (auto simp: Map_delete_def)

lemma Map_delete_distinct: "distinct (map fst m) \<Longrightarrow> distinct (map fst (Map_delete k m))"
  by (simp add: Map_delete_def distinct_map_filter)


lemma Map_new_acc_distinct:
  "distinct (map fst acc) \<Longrightarrow>
   distinct (map fst (foldl (\<lambda>m e. Map_set (fst e) (snd e) m) acc es))"
  by (induction es arbitrary: acc) (auto simp: Map_set_distinct)

lemma Map_new_distinct: "distinct (map fst (Map_new es))"
  by (simp add: Map_new_def Map_new_acc_distinct)

lemma updateFaceMatcher_enrolledFaces [simp]:
  "enrolledFaces (updateFaceMatcher p s) = enrolledFaces s"
  by (simp add: updateFaceMatcher_def split: sum.splits)

lemma updateFaceMatcher_localStorage [simp]:
  "localStorage (updateFaceMatcher p s) = localStorage s"
  by (simp add: updateFaceMatcher_def split: sum.splits)

lemma updateFaceMatcher_empty:
  "enrolledFaces s = [] \<Longrightarrow> faceMatcher (updateFaceMatcher p s) = None"
  by (simp add: updateFaceMatcher_def)

lemma saveEnrolledFaces_enrolledFaces [simp]:
  "enrolledFaces (saveEnrolledFaces p s) = enrolledFaces s"
  by (simp add: saveEnrolledFaces_def Let_def)

lemma saveEnrolledFaces_faceMatcher [simp]:
  "faceMatcher (saveEnrolledFaces p s) = faceMatcher s"
  by (simp add: saveEnrolledFaces_def Let_def)

lemma saveEnrolledFaces_localStorage:
  "localStorage (saveEnrolledFaces p s) =
     (if setItem_accepts p (JSON_stringify (Object_fromEntries (enrolledFaces s)))
      then Some (JSON_stringify (Object_fromEntries (enrolledFaces s)))
      else localStorage s)"
  by (simp add: saveEnrolledFaces_def Let_def)

lemma enrollFaceWithPrompt_cases:
  "snd (enrollFaceWithPrompt p now answer overwrite d s) = s \<or>
   (\<exists>lbl. enrollFaceWithPrompt p now answer overwrite d s = enrollFace p now d lbl s)"
  by (auto simp: enrollFaceWithPrompt_def split: option.splits)

lemma enrollFaceWithPrompt_reachable:
  "reachable p s \<Longrightarrow> reachable p (snd (enrollFaceWithPrompt p now answer overwrite d s))"
  using enrollFaceWithPrompt_cases [of p now answer overwrite d s]
  by (auto intro: reachable.enrolled)

section \<open>Recognition\<close>

lemma foldl_recognizeOne:
  "foldl (recognizeOne p m t) acc dets = acc @ foldl (recognizeOne p m t) [] dets"
proof (induction dets arbitrary: acc)
  case Nil
  show ?case by simp
next
  case (Cons d dets)
  have step: "recognizeOne p m t acc d = acc @ recognizeOne p m t [] d"
    by (simp add: recognizeOne_def Let_def split: option.splits)
  show ?case
    using Cons.IH [of "recognizeOne p m t acc d"] Cons.IH [of "recognizeOne p m t [] d"] step
    by simp
qed

lemma foldl_recognizeOne_map:
  "foldl (recognizeOne p m t) [] dets = map (resultFor p m t) dets"
proof (induction dets)
  case Nil
  show ?case by simp
next
  case (Cons d dets)
  have "foldl (recognizeOne p m t) [] (d # dets)
        = recognizeOne p m t [] d @ foldl (recognizeOne p m t) [] dets"
    using foldl_recognizeOne [of p m t "recognizeOne p m t [] d" dets] by simp
  moreover have "recognizeOne p m t [] d = [resultFor p m t d]"
    by (simp add: recognizeOne_def resultFor_def Let_def split: option.splits)
  ultimately show ?case using Cons.IH by simp
qed

lemma recognizeFaces_Some:
  "faceMatcher s = Some m \<Longrightarrow> recognizeFaces p s dets t = map (resultFor p m t) dets"
  by (cases dets) (simp_all add: recognizeFaces_def foldl_recognizeOne_map del: foldl_Cons)

lemma recognizeFaces_None: "faceMatcher s = None \<Longrightarrow> recognizeFaces p s dets t = []"
  by (simp add: recognizeFaces_def)

lemma recognizeFaces_results:
  "recognizeFaces p s dets t =
     (case faceMatcher s of None \<Rightarrow> [] | Some m \<Rightarrow> map (resultFor p m t) dets)"
  by (simp add: recognizeFaces_Some recognizeFaces_None split: option.splits)

section \<open>Invariants of the reachable states\<close>

lemma updateFaceMatcher_follows: "matcher_follows_store (updateFaceMatcher p s)"
  by (cases "enrolledFaces s = []")
     (simp_all add: matcher_follows_store_def updateFaceMatcher_empty)

lemma saveEnrolledFaces_follows:
  "matcher_follows_store s \<Longrightarrow> matcher_follows_store (saveEnrolledFaces p s)"
  by (simp add: matcher_follows_store_def)

lemma console_follows [simp]:
  "matcher_follows_store (s\<lparr>console := c\<rparr>) = matcher_follows_store s"
  by (simp add: matcher_follows_store_def)

lemma localStorage_follows [simp]:
  "matcher_follows_store (s\<lparr>localStorage := x\<rparr>) = matcher_follows_store s"
  by (simp add: matcher_follows_store_def)

text \<open>
  The handler of \<^verbatim>\<open>loadEnrolledFaces\<close> empties the map and leaves the matcher
  alone, so loading keeps the matcher in step with the map only where no matcher
  exists yet, as in the constructor.
\<close>

lemma loadEnrolledFaces_follows:
  "faceMatcher s = None \<Longrightarrow> matcher_follows_store (loadEnrolledFaces p s)"
  by (auto simp: loadEnrolledFaces_def loadEnrolledFaces_try_def Let_def
        updateFaceMatcher_follows matcher_follows_store_def [of s]
        matcher_follows_store_def [of "s\<lparr>console := c, enrolledFaces := []\<rparr>" for c]
      split: sum.splits option.splits if_splits)

lemma enrollFace_follows:
  "matcher_follows_store s \<Longrightarrow> matcher_follows_store (snd (enrollFace p now d lbl s))"
  by (simp add: enrollFace_def Let_def saveEnrolledFaces_follows updateFaceMatcher_follows
      split: option.splits)

lemma removeFace_follows:
  "matcher_follows_store s \<Longrightarrow> matcher_follows_store (snd (removeFace p lbl s))"
  by (simp add: removeFace_def Let_def saveEnrolledFaces_follows updateFaceMatcher_follows)

lemma clearAllFaces_follows: "matcher_follows_store (clearAllFaces p s)"
  by (simp add: clearAllFaces_def Let_def saveEnrolledFaces_follows matcher_follows_store_def)

lemma reachable_follows: "reachable p s \<Longrightarrow> matcher_follows_store s"
proof (induction rule: reachable.induct)
  case (constructed saved)
  show ?case
    unfolding FaceRecognizer_def
    by (rule loadEnrolledFaces_follows) simp
next
  case (enrolled s now faceDescriptor lbl)
  then show ?case by (simp add: enrollFace_follows)
next
  case (removed s lbl)
  then show ?case by (simp add: removeFace_follows)
next
  case (cleared s)
  show ?case by (rule clearAllFaces_follows)
next
  case (stored s saved)
  then show ?case by simp
qed


section \<open>Evaluating the examples\<close>

lemma FaceRecognizer_None:
  "FaceRecognizer p None =
     \<lparr>enrolledFaces = [], faceMatcher = None, localStorage = None, console = []\<rparr>"
  by (simp add: FaceRecognizer_def loadEnrolledFaces_def loadEnrolledFaces_try_def)

lemmas store_eval =
  enrollFace_def removeFace_def Let_def updateFaceMatcher_def labeledDescriptor_def
  Float32Array_new_def Array_from_def saveEnrolledFaces_def Object_fromEntries_def
  define_properties_def
  obj_define_def Map_has_def Map_delete_def array_index_def is_digit_def nat_of_digits_def
  digit_value_def digit_char_def string_of_nat.simps JSON_stringify_def
  demo_platform_def unlimited_def

lemma alice_store_eq:
  "alice_store =
     \<lparr>enrolledFaces =
        [(''Alice'', JObj [(''descriptor'', JArr [JNum (Finite 1), JNum (Finite 2)]), (''label'', JStr ''Alice''),
                          (''enrolledAt'', JStr ''2024-01-01T00:00:00.000Z'')])],
      faceMatcher = Some \<lparr>labeledDescriptors = [LabeledFaceDescriptors ''Alice'' [ [Finite 1, Finite 2] ] ],
                           distanceThreshold = 0.6\<rparr>,
      localStorage = Some (JsonText (JObj
        [(''Alice'', JObj [(''descriptor'', JArr [JNum (Finite 1), JNum (Finite 2)]), (''label'', JStr ''Alice''),
                          (''enrolledAt'', JStr ''2024-01-01T00:00:00.000Z'')])])),
      console = [MatcherUpdated 1, FaceEnrolled ''Alice'']\<rparr>"
  by (simp add: alice_store_def FaceRecognizer_None store_eval)

lemmas match_eval =
  findBestMatch_def candidates_def manhattan_def demo_platform_def resultFor_def

section \<open>Claims about recognition\<close>

text \<open>
  Claim C1, as amended. \<^verbatim>\<open>recognizeFaces\<close> first tests the matcher: without one it
  returns the empty sequence whatever the detections. With a matcher \<open>m\<close> it returns
  one result per detection, in the order of the detections: for a detection with a
  descriptor, the answer of \<open>findBestMatch\<close> on that descriptor with the given
  threshold (the flag \<open>isMatch\<close> says that the label is not \<^verbatim>\<open>unknown\<close>); for a
  detection without a descriptor, \<^verbatim>\<open>unknown\<close> at distance 1, a value in which the
  matcher does not occur.
\<close>

theorem recognizeFaces_per_detection:
  "(faceMatcher s = None \<longrightarrow> recognizeFaces p s dets t = []) \<and>
   (\<forall>m. faceMatcher s = Some m \<longrightarrow>
      length (recognizeFaces p s dets t) = length dets \<and>
      (\<forall>i<length dets.
         recognizeFaces p s dets t ! i =
           (case descriptor (dets ! i) of
              Some q \<Rightarrow> \<lparr>label = fst (findBestMatch p m q t),
                         distance = snd (findBestMatch p m q t),
                         isMatch = (fst (findBestMatch p m q t) \<noteq> ''unknown'')\<rparr>
            | None \<Rightarrow> \<lparr>label = ''unknown'', distance = 1, isMatch = False\<rparr>)))"
  by (simp add: recognizeFaces_Some recognizeFaces_None resultFor_def)

text \<open>One enrolled face, a detection without and one with a descriptor.\<close>

theorem recognizeFaces_per_detection_witness:
  "faceMatcher alice_store \<noteq> None \<and>
   length (recognizeFaces demo_platform alice_store
             [\<lparr>descriptor = None\<rparr>, \<lparr>descriptor = Some [Finite 1.5, Finite 2]\<rparr>] 0.6) = 2 \<and>
   recognizeFaces demo_platform alice_store
     [\<lparr>descriptor = None\<rparr>, \<lparr>descriptor = Some [Finite 1.5, Finite 2]\<rparr>] 0.6 ! 1 =
     \<lparr>label = ''Alice'', distance = 0.5, isMatch = True\<rparr>"
proof -
  let ?m = "\<lparr>labeledDescriptors = [LabeledFaceDescriptors ''Alice'' [ [Finite 1, Finite 2] ] ],
             distanceThreshold = 0.6\<rparr>"
  have m: "faceMatcher alice_store = Some ?m"
    by (simp add: alice_store_eq)
  have best: "findBestMatch demo_platform ?m [Finite 1.5, Finite 2] 0.6 = (''Alice'', 0.5)"
    by (simp add: match_eval)
  from recognizeFaces_per_detection
         [of alice_store demo_platform "[\<lparr>descriptor = None\<rparr>, \<lparr>descriptor = Some [Finite 1.5, Finite 2]\<rparr>]" "0.6"]
  show ?thesis using m best by simp
qed

text \<open>
  Claim C1 as stated fails in a new recognizer over an empty storage: one detection
  goes in, no result comes out.
\<close>

theorem recognizeFaces_no_matcher_counterexample:
  "length (recognizeFaces demo_platform (FaceRecognizer demo_platform None)
             [\<lparr>descriptor = None\<rparr>] 0.6)
   \<noteq> length [\<lparr>descriptor = None\<rparr>]"
  by (simp add: FaceRecognizer_None recognizeFaces_def)

text \<open>
  Claim C2, as amended. In every state the application can reach, an empty map of
  enrolled faces comes with no matcher, and \<^verbatim>\<open>recognizeFaces\<close> then returns the
  empty sequence for every list of detections and every threshold: no distance is
  computed and no result, not even \<^verbatim>\<open>unknown\<close>, is produced.
\<close>

theorem recognizeFaces_empty_store:
  "reachable p s \<Longrightarrow> enrolledFaces s = [] \<Longrightarrow> recognizeFaces p s dets t = []"
  using reachable_follows [of p s]
  by (simp add: matcher_follows_store_def recognizeFaces_None)

theorem recognizeFaces_empty_store_witness:
  "reachable demo_platform (FaceRecognizer demo_platform None) \<and>
   enrolledFaces (FaceRecognizer demo_platform None) = [] \<and>
   recognizeFaces demo_platform (FaceRecognizer demo_platform None)
     [\<lparr>descriptor = Some [Finite 1, Finite 2]\<rparr>] 0.6 = []"
proof -
  have r: "reachable demo_platform (FaceRecognizer demo_platform None)"
    by (rule reachable.constructed)
  have e: "enrolledFaces (FaceRecognizer demo_platform None) = []"
    by (simp add: FaceRecognizer_None)
  from recognizeFaces_empty_store [OF r e] r e show ?thesis by simp
qed

text \<open>
  Claim C2 as stated fails: with nothing enrolled, a query descriptor is not
  answered by the \<^verbatim>\<open>unknown\<close> result at distance 1.
\<close>

theorem recognizeFaces_empty_store_counterexample:
  "recognizeFaces demo_platform (FaceRecognizer demo_platform None)
     [\<lparr>descriptor = Some [Finite 1, Finite 2]\<rparr>] 0.6
   \<noteq> [\<lparr>label = ''unknown'', distance = 1, isMatch = False\<rparr>]"
  by (simp add: FaceRecognizer_None recognizeFaces_def)


lemma findBestMatch_monotone:
  assumes "T < T'" and "fst (findBestMatch p m q T) \<noteq> ''unknown''"
  shows "findBestMatch p m q T' = findBestMatch p m q T"
  using assms by (auto simp: findBestMatch_def split: option.splits if_splits)

text \<open>
  Claim C3. Recognition is monotonic in the threshold it passes to the matcher: if
  the \<open>i\<close>-th detection is matched at threshold \<open>T\<close>, then at every larger threshold
  \<open>T'\<close> it is matched as well, with the same label.
\<close>

theorem recognizeFaces_threshold_monotone:
  assumes "T < T'"
    and "i < length (recognizeFaces p s dets T)"
    and "isMatch (recognizeFaces p s dets T ! i)"
  shows "i < length (recognizeFaces p s dets T') \<and>
         isMatch (recognizeFaces p s dets T' ! i) \<and>
         label (recognizeFaces p s dets T' ! i) = label (recognizeFaces p s dets T ! i)"
proof (cases "faceMatcher s")
  case None
  with assms(2) show ?thesis by (simp add: recognizeFaces_None)
next
  case (Some m)
  from assms(2) Some have i: "i < length dets" by (simp add: recognizeFaces_Some)
  from assms(3) Some i have match: "isMatch (resultFor p m T (dets ! i))"
    by (simp add: recognizeFaces_Some)
  then obtain q where q: "descriptor (dets ! i) = Some q"
    by (cases "descriptor (dets ! i)") (simp_all add: resultFor_def)
  from match q have "fst (findBestMatch p m q T) \<noteq> ''unknown''"
    by (simp add: resultFor_def)
  with assms(1) have "findBestMatch p m q T' = findBestMatch p m q T"
    by (rule findBestMatch_monotone)
  then have "resultFor p m T' (dets ! i) = resultFor p m T (dets ! i)"
    using q by (simp add: resultFor_def)
  with Some i match show ?thesis by (simp add: recognizeFaces_Some)
qed

theorem recognizeFaces_threshold_monotone_witness:
  "(0.6 :: real) < 0.9 \<and>
   0 < length (recognizeFaces demo_platform alice_store [\<lparr>descriptor = Some [Finite 1.5, Finite 2]\<rparr>] 0.6) \<and>
   isMatch (recognizeFaces demo_platform alice_store [\<lparr>descriptor = Some [Finite 1.5, Finite 2]\<rparr>] 0.6 ! 0) \<and>
   isMatch (recognizeFaces demo_platform alice_store [\<lparr>descriptor = Some [Finite 1.5, Finite 2]\<rparr>] 0.9 ! 0) \<and>
   label (recognizeFaces demo_platform alice_store [\<lparr>descriptor = Some [Finite 1.5, Finite 2]\<rparr>] 0.9 ! 0)
     = ''Alice''"
proof -
  let ?m = "\<lparr>labeledDescriptors = [LabeledFaceDescriptors ''Alice'' [ [Finite 1, Finite 2] ] ],
             distanceThreshold = 0.6\<rparr>"
  have m: "faceMatcher alice_store = Some ?m"
    by (simp add: alice_store_eq)
  have r: "recognizeFaces demo_platform alice_store [\<lparr>descriptor = Some [Finite 1.5, Finite 2]\<rparr>] 0.6
           = [\<lparr>label = ''Alice'', distance = 0.5, isMatch = True\<rparr>]"
    by (simp add: recognizeFaces_Some [OF m] match_eval)
  have h1: "(0.6 :: real) < 0.9" by simp
  have h2: "0 < length (recognizeFaces demo_platform alice_store
                          [\<lparr>descriptor = Some [Finite 1.5, Finite 2]\<rparr>] 0.6)"
    using r by simp
  have h3: "isMatch (recognizeFaces demo_platform alice_store
                       [\<lparr>descriptor = Some [Finite 1.5, Finite 2]\<rparr>] 0.6 ! 0)"
    using r by simp
  from recognizeFaces_threshold_monotone [OF h1 h2 h3] h1 h2 h3 r show ?thesis
    by simp
qed

section \<open>Claims about enrolling and removing\<close>

text \<open>
  Claim C4, as amended. \<^verbatim>\<open>enrollFace\<close> throws
  \<^verbatim>\<open>Error('Face descriptor and label are required')\<close> to its caller whenever the
  label is the empty string or the descriptor is absent (\<^verbatim>\<open>null\<close> or
  \<^verbatim>\<open>undefined\<close>), and then leaves the whole state as it was: the enrolled faces,
  the matcher, the stored item and the console.
\<close>

theorem enrollFace_rejects_missing_input:
  "lbl = [] \<or> faceDescriptor = None \<Longrightarrow>
   enrollFace p now faceDescriptor lbl s
     = (Inl (Error ''Face descriptor and label are required''), s)"
  by (auto simp: enrollFace_def split: option.splits)

theorem enrollFace_rejects_missing_input_witness:
  "(([] :: string) = [] \<or> Some [Finite 1, Finite 2] = (None :: descriptor option)) \<and>
   enrollFace demo_platform ''2024-01-02T00:00:00.000Z'' (Some [Finite 1, Finite 2]) [] alice_store
     = (Inl (Error ''Face descriptor and label are required''), alice_store)"
proof -
  have h: "([] :: string) = [] \<or> Some [Finite 1, Finite 2] = (None :: descriptor option)" by simp
  from enrollFace_rejects_missing_input [OF h] h show ?thesis by simp
qed

text \<open>
  Claim C4 as stated fails for a descriptor that is present and empty: a
  \<^verbatim>\<open>Float32Array\<close> of length 0 is truthy, the call returns \<^verbatim>\<open>true\<close> and the
  label is enrolled.
\<close>

theorem enrollFace_empty_descriptor_counterexample:
  "fst (enrollFace demo_platform ''2024-01-02T00:00:00.000Z'' (Some []) ''Bob''
          (FaceRecognizer demo_platform None)) = Inr True \<and>
   getEnrolledFaces (snd (enrollFace demo_platform ''2024-01-02T00:00:00.000Z'' (Some []) ''Bob''
          (FaceRecognizer demo_platform None))) = [''Bob'']"
  by (simp add: FaceRecognizer_None store_eval getEnrolledFaces_def Map_keys_def)




section \<open>The map of enrolled faces\<close>

lemma loadEnrolledFaces_distinct:
  "distinct (map fst (enrolledFaces s)) \<Longrightarrow>
   distinct (map fst (enrolledFaces (loadEnrolledFaces p s)))"
  by (auto simp: loadEnrolledFaces_def loadEnrolledFaces_try_def Let_def Map_new_distinct
      split: sum.splits option.splits if_splits)

lemma enrollFace_distinct:
  "distinct (map fst (enrolledFaces s)) \<Longrightarrow>
   distinct (map fst (enrolledFaces (snd (enrollFace p now d lbl s))))"
  by (simp add: enrollFace_def Let_def Map_set_distinct split: option.splits)

lemma removeFace_distinct:
  "distinct (map fst (enrolledFaces s)) \<Longrightarrow>
   distinct (map fst (enrolledFaces (snd (removeFace p lbl s))))"
  by (simp add: removeFace_def Let_def Map_delete_distinct)

lemma reachable_distinct: "reachable p s \<Longrightarrow> distinct (map fst (enrolledFaces s))"
proof (induction rule: reachable.induct)
  case (constructed saved)
  show ?case
    unfolding FaceRecognizer_def by (rule loadEnrolledFaces_distinct) simp
next
  case (enrolled s now faceDescriptor lbl)
  from enrolled.IH show ?case by (rule enrollFace_distinct)
next
  case (removed s lbl)
  from removed.IH show ?case by (rule removeFace_distinct)
next
  case (cleared s)
  show ?case by (simp add: clearAllFaces_def Let_def)
next
  case (stored s saved)
  then show ?case by simp
qed

lemma Map_set_filter:
  "distinct (map fst m) \<Longrightarrow> filter (\<lambda>e. fst e = k) (Map_set k v m) = [(k, v)]"
proof (induction m)
  case Nil
  show ?case by simp
next
  case (Cons e m)
  obtain k' v' where e: "e = (k', v')" by (cases e)
  show ?case
  proof (cases "k' = k")
    case True
    from Cons.prems have "k \<notin> fst ` set m" by (simp add: e True)
    then have "filter (\<lambda>e. fst e = k) m = []"
      by (auto simp: filter_empty_conv)
    then show ?thesis by (simp add: e True)
  next
    case False
    with Cons show ?thesis by (simp add: e)
  qed
qed

lemma map_throwing_filter:
  assumes "map_throwing f xs = Inr ys"
    and "\<And>x y. f x = Inr y \<Longrightarrow> Q y = P x"
  shows "map_throwing f (filter P xs) = Inr (filter Q ys)"
  using assms(1)
proof (induction xs arbitrary: ys)
  case Nil
  then show ?case by simp
next
  case (Cons x xs)
  from Cons.prems obtain y zs where y: "f x = Inr y" and zs: "map_throwing f xs = Inr zs"
    and ys: "ys = y # zs"
    by (auto split: sum.splits)
  from Cons.IH [OF zs] assms(2) [OF y] show ?case
    by (simp add: ys y)
qed

lemma map_throwing_all:
  "list_all (\<lambda>x. case f x of Inl e \<Rightarrow> False | Inr y \<Rightarrow> True) xs \<Longrightarrow>
   \<exists>ys. map_throwing f xs = Inr ys"
  by (induction xs) (auto split: sum.splits)

lemma labeledDescriptor_label: "labeledDescriptor p e = Inr ld \<Longrightarrow> label_of ld = fst e"
  by (auto simp: labeledDescriptor_def split: sum.splits)

lemma is_num_JNum: "list_all is_num (map JNum d)"
  by (induction d) simp_all

lemma num_of_JNum: "map (num_of \<circ> JNum) d = d"
  by (induction d) simp_all

lemma labeledDescriptor_faceData:
  "labeledDescriptor p
     (lbl, JObj [(''descriptor'', Array_from d), (''label'', JStr l), (''enrolledAt'', JStr now)])
   = Inr (LabeledFaceDescriptors lbl [d])"
  by (simp add: labeledDescriptor_def Float32Array_new_def Array_from_def is_num_JNum num_of_JNum)

lemma updateFaceMatcher_Some:
  "faceMatcher (updateFaceMatcher p s) = Some m \<Longrightarrow>
   map_throwing (labeledDescriptor p) (enrolledFaces s) = Inr (labeledDescriptors m)"
  by (auto simp: updateFaceMatcher_def split: if_splits sum.splits)

lemma updateFaceMatcher_converts:
  "enrolledFaces s \<noteq> [] \<Longrightarrow> list_all (converts p) (enrolledFaces s) \<Longrightarrow>
   faceMatcher (updateFaceMatcher p s) \<noteq> None"
proof -
  assume ne: "enrolledFaces s \<noteq> []" and all: "list_all (converts p) (enrolledFaces s)"
  from all have "list_all (\<lambda>x. case labeledDescriptor p x of Inl e \<Rightarrow> False | Inr y \<Rightarrow> True)
                   (enrolledFaces s)"
    by (simp add: converts_def [abs_def])
  then obtain ys where "map_throwing (labeledDescriptor p) (enrolledFaces s) = Inr ys"
    using map_throwing_all by blast
  with ne show ?thesis by (simp add: updateFaceMatcher_def)
qed

lemma Map_set_list_all:
  "list_all P m \<Longrightarrow> P (k, v) \<Longrightarrow> list_all P (Map_set k v m)"
  by (induction m) auto

lemma enrollFace_stores:
  assumes "lbl \<noteq> []"
  shows "enrolledFaces (snd (enrollFace p now (Some d) lbl s)) =
           Map_set lbl (JObj [(''descriptor'', Array_from d), (''label'', JStr lbl),
                              (''enrolledAt'', JStr now)]) (enrolledFaces s)"
    and "faceMatcher (snd (enrollFace p now (Some d) lbl s)) =
           faceMatcher (updateFaceMatcher p (s\<lparr>enrolledFaces :=
             Map_set lbl (JObj [(''descriptor'', Array_from d), (''label'', JStr lbl),
                                (''enrolledAt'', JStr now)]) (enrolledFaces s)\<rparr>))"
  using assms by (simp_all add: enrollFace_def Let_def)

text \<open>
  Claim C5. In every state the application can reach, the map of enrolled faces
  holds at most one entry per label. Enrolling a descriptor \<open>d\<close> under a label, new or
  already enrolled, leaves exactly one entry for that label, the object made from
  \<open>d\<close>: a descriptor stored before under the label is gone. In the matcher built by
  that call the only descriptors under the label are \<open>[d]\<close>, and the matcher is built
  whenever the typed-array constructor accepts the descriptors of the entries
  already there.
\<close>

theorem enrollFace_overwrites:
  assumes "reachable p s" and "lbl \<noteq> []"
  shows "distinct (map fst (enrolledFaces s)) \<and>
         distinct (map fst (enrolledFaces (snd (enrollFace p now (Some d) lbl s)))) \<and>
         filter (\<lambda>e. fst e = lbl) (enrolledFaces (snd (enrollFace p now (Some d) lbl s)))
           = [(lbl, JObj [(''descriptor'', Array_from d), (''label'', JStr lbl),
                          (''enrolledAt'', JStr now)])] \<and>
         (\<forall>m. faceMatcher (snd (enrollFace p now (Some d) lbl s)) = Some m \<longrightarrow>
              filter (\<lambda>ld. label_of ld = lbl) (labeledDescriptors m)
                = [LabeledFaceDescriptors lbl [d] ]) \<and>
         (list_all (converts p) (enrolledFaces s) \<longrightarrow>
              faceMatcher (snd (enrollFace p now (Some d) lbl s)) \<noteq> None)"
proof -
  let ?v = "JObj [(''descriptor'', Array_from d), (''label'', JStr lbl),
                  (''enrolledAt'', JStr now)]"
  let ?s1 = "s\<lparr>enrolledFaces := Map_set lbl ?v (enrolledFaces s)\<rparr>"
  let ?s' = "snd (enrollFace p now (Some d) lbl s)"
  have dist: "distinct (map fst (enrolledFaces s))"
    using assms(1) by (rule reachable_distinct)
  have dist': "distinct (map fst (enrolledFaces ?s'))"
    using dist by (rule enrollFace_distinct)
  have entries: "enrolledFaces ?s' = Map_set lbl ?v (enrolledFaces s)"
    using assms(2) by (rule enrollFace_stores(1))
  have one: "filter (\<lambda>e. fst e = lbl) (enrolledFaces ?s') = [(lbl, ?v)]"
    unfolding entries using dist by (rule Map_set_filter)
  have matcher: "faceMatcher ?s' = faceMatcher (updateFaceMatcher p ?s1)"
    using assms(2) by (rule enrollFace_stores(2))
  have matched: "filter (\<lambda>ld. label_of ld = lbl) (labeledDescriptors m)
                   = [LabeledFaceDescriptors lbl [d] ]"
    if m: "faceMatcher ?s' = Some m" for m
  proof -
    from m matcher have "faceMatcher (updateFaceMatcher p ?s1) = Some m"
      by simp
    then have "map_throwing (labeledDescriptor p) (enrolledFaces ?s1)
                 = Inr (labeledDescriptors m)"
      by (rule updateFaceMatcher_Some)
    then have "map_throwing (labeledDescriptor p)
                 (filter (\<lambda>e. fst e = lbl) (enrolledFaces ?s1))
               = Inr (filter (\<lambda>ld. label_of ld = lbl) (labeledDescriptors m))"
      by (rule map_throwing_filter) (simp add: labeledDescriptor_label)
    moreover have "filter (\<lambda>e. fst e = lbl) (enrolledFaces ?s1) = [(lbl, ?v)]"
      using one entries by simp
    ultimately show ?thesis
      by (simp add: labeledDescriptor_faceData)
  qed
  have built: "faceMatcher ?s' \<noteq> None" if "list_all (converts p) (enrolledFaces s)"
  proof -
    have "converts p (lbl, ?v)"
      by (simp add: converts_def labeledDescriptor_faceData)
    with that have "list_all (converts p) (enrolledFaces ?s1)"
      by (simp add: Map_set_list_all)
    then show ?thesis
      unfolding matcher by (intro updateFaceMatcher_converts) (simp_all add: Map_set_not_Nil)
  qed
  from dist dist' one matched built show ?thesis by blast
qed


text \<open>Alice is enrolled with \<open>[1, 2]\<close>, then again with \<open>[3, 4]\<close>.\<close>

lemma alice_store_reachable: "reachable demo_platform alice_store"
  unfolding alice_store_def by (intro reachable.enrolled reachable.constructed)

theorem enrollFace_overwrites_witness:
  "reachable demo_platform alice_store \<and> ''Alice'' \<noteq> [] \<and>
   list_all (converts demo_platform) (enrolledFaces alice_store) \<and>
   map snd (filter (\<lambda>e. fst e = ''Alice'') (enrolledFaces alice_store))
     = [JObj [(''descriptor'', JArr [JNum (Finite 1), JNum (Finite 2)]), (''label'', JStr ''Alice''),
              (''enrolledAt'', JStr ''2024-01-01T00:00:00.000Z'')] ] \<and>
   map snd (filter (\<lambda>e. fst e = ''Alice'')
     (enrolledFaces (snd (enrollFace demo_platform ''2024-01-02T00:00:00.000Z'' (Some [Finite 3, Finite 4])
                            ''Alice'' alice_store))))
     = [JObj [(''descriptor'', JArr [JNum (Finite 3), JNum (Finite 4)]), (''label'', JStr ''Alice''),
              (''enrolledAt'', JStr ''2024-01-02T00:00:00.000Z'')] ] \<and>
   faceMatcher (snd (enrollFace demo_platform ''2024-01-02T00:00:00.000Z'' (Some [Finite 3, Finite 4])
                       ''Alice'' alice_store)) \<noteq> None"
proof -
  have l: "''Alice'' \<noteq> []" by simp
  have c: "list_all (converts demo_platform) (enrolledFaces alice_store)"
    by (simp add: alice_store_eq converts_def labeledDescriptor_def Float32Array_new_def)
  have before: "map snd (filter (\<lambda>e. fst e = ''Alice'') (enrolledFaces alice_store))
     = [JObj [(''descriptor'', JArr [JNum (Finite 1), JNum (Finite 2)]), (''label'', JStr ''Alice''),
              (''enrolledAt'', JStr ''2024-01-01T00:00:00.000Z'')] ]"
    by (simp add: alice_store_eq)
  from enrollFace_overwrites [OF alice_store_reachable l,
         of "''2024-01-02T00:00:00.000Z''" "[Finite 3, Finite 4]"] alice_store_reachable l c before
  show ?thesis by (simp add: Array_from_def)
qed

section \<open>Replaying enrolments and removals\<close>

lemma enrollFace_keys:
  "fst ` set (enrolledFaces (snd (enrollFace p now d lbl s))) =
     (if d \<noteq> None \<and> lbl \<noteq> [] then insert lbl (fst ` set (enrolledFaces s))
      else fst ` set (enrolledFaces s))"
  by (simp add: enrollFace_def Let_def Map_set_keys split: option.splits)

lemma removeFace_keys:
  "fst ` set (enrolledFaces (snd (removeFace p lbl s))) = fst ` set (enrolledFaces s) - {lbl}"
  by (auto simp: removeFace_def Let_def Map_delete_keys Map_has_def)

lemma last_is_enroll_snoc:
  "last_is_enroll lbl (ops @ [x]) =
     (if operation_label x = lbl then is_enroll x else last_is_enroll lbl ops)"
  by (simp add: last_is_enroll_def)

lemma replay_snoc: "replay p (ops @ [x]) s = apply_operation p (replay p ops s) x"
  by (simp add: replay_def)

lemma apply_operation_keys:
  "fst ` set (enrolledFaces (apply_operation p s x)) =
     (if accepted x
      then (if is_enroll x then insert (operation_label x) (fst ` set (enrolledFaces s))
            else fst ` set (enrolledFaces s) - {operation_label x})
      else fst ` set (enrolledFaces s))"
  by (cases x) (simp_all add: enrollFace_keys removeFace_keys)

lemma replay_keys:
  "enrolledFaces s = [] \<Longrightarrow>
   set (getEnrolledFaces (replay p ops s)) = {lbl. last_is_enroll lbl (filter accepted ops)}"
proof (induction ops rule: rev_induct)
  case Nil
  then show ?case
    by (simp add: replay_def getEnrolledFaces_def Map_keys_def last_is_enroll_def)
next
  case (snoc x ops)
  from snoc have IH: "fst ` set (enrolledFaces (replay p ops s))
                        = {lbl. last_is_enroll lbl (filter accepted ops)}"
    by (simp add: getEnrolledFaces_def Map_keys_def)
  have keys: "set (getEnrolledFaces st) = fst ` set (enrolledFaces st)" for st
    by (simp add: getEnrolledFaces_def Map_keys_def)
  show ?case
    unfolding keys replay_snoc apply_operation_keys IH
    by (auto simp: last_is_enroll_snoc)
qed

lemma replay_distinct:
  "distinct (map fst (enrolledFaces s)) \<Longrightarrow>
   distinct (map fst (enrolledFaces (replay p ops s)))"
proof (induction ops rule: rev_induct)
  case Nil
  then show ?case by (simp add: replay_def)
next
  case (snoc x ops)
  then show ?case
    by (cases x) (simp_all add: replay_snoc enrollFace_distinct removeFace_distinct)
qed

text \<open>
  Claim C6. Replay any sequence of calls of \<^verbatim>\<open>enrollFace\<close> and \<^verbatim>\<open>removeFace\<close>
  from a state whose map is empty. A call of \<^verbatim>\<open>enrollFace\<close> without descriptor or
  with the empty label throws and changes nothing, so it is no operation on the
  store; leave those calls out. The labels that \<^verbatim>\<open>getEnrolledFaces\<close> returns
  afterwards are, without repetition, exactly the labels whose last operation is an
  enrolment. In particular, when every enrolment of the sequence has a descriptor
  and a non-empty label, they are the labels whose last operation in the sequence
  itself is an enrolment.
\<close>

theorem replay_lists_last_enrolled:
  assumes "enrolledFaces s = []"
  shows "set (getEnrolledFaces (replay p ops s))
           = {lbl. last_is_enroll lbl (filter accepted ops)} \<and>
         distinct (getEnrolledFaces (replay p ops s)) \<and>
         (list_all accepted ops \<longrightarrow>
            set (getEnrolledFaces (replay p ops s)) = {lbl. last_is_enroll lbl ops})"
proof -
  have all: "set (getEnrolledFaces (replay p ops s))
               = {lbl. last_is_enroll lbl (filter accepted ops)}"
    using assms by (rule replay_keys)
  have "filter accepted ops = ops" if "list_all accepted ops"
    using that by (simp add: list_all_iff)
  with all have "list_all accepted ops \<longrightarrow>
                   set (getEnrolledFaces (replay p ops s)) = {lbl. last_is_enroll lbl ops}"
    by simp
  moreover from assms have "distinct (getEnrolledFaces (replay p ops s))"
    by (simp add: getEnrolledFaces_def Map_keys_def replay_distinct)
  ultimately show ?thesis using all by simp
qed


theorem replay_lists_last_enrolled_witness:
  "enrolledFaces (FaceRecognizer demo_platform None) = [] \<and>
   list_all accepted [Enroll ''t1'' (Some [Finite 1, Finite 2]) ''Alice'', Enroll ''t2'' (Some [Finite 5]) ''Bob'',
                      Remove ''Alice''] \<and>
   getEnrolledFaces (replay demo_platform
      [Enroll ''t1'' (Some [Finite 1, Finite 2]) ''Alice'', Enroll ''t2'' (Some [Finite 5]) ''Bob'', Remove ''Alice'']
      (FaceRecognizer demo_platform None)) = [''Bob''] \<and>
   {lbl. last_is_enroll lbl
      [Enroll ''t1'' (Some [Finite 1, Finite 2]) ''Alice'', Enroll ''t2'' (Some [Finite 5]) ''Bob'', Remove ''Alice'']}
     = {''Bob''}"
proof -
  let ?ops = "[Enroll ''t1'' (Some [Finite 1, Finite 2]) ''Alice'', Enroll ''t2'' (Some [Finite 5]) ''Bob'',
               Remove ''Alice'']"
  have e: "enrolledFaces (FaceRecognizer demo_platform None) = []"
    by (simp add: FaceRecognizer_None)
  have a: "list_all accepted ?ops" by simp
  have l: "getEnrolledFaces (replay demo_platform ?ops (FaceRecognizer demo_platform None))
             = [''Bob'']"
    by (simp add: replay_def FaceRecognizer_None store_eval getEnrolledFaces_def Map_keys_def)
  from replay_lists_last_enrolled [OF e, of demo_platform ?ops] e a l show ?thesis by simp
qed

text \<open>Stores built by enrolments alone always get their matcher.\<close>

lemma enrollFace_converts:
  "list_all (converts p) (enrolledFaces s) \<Longrightarrow>
   list_all (converts p) (enrolledFaces (snd (enrollFace p now d lbl s)))"
  by (simp add: enrollFace_def Let_def Map_set_list_all converts_def labeledDescriptor_faceData
      split: option.splits)

lemma removeFace_converts:
  "list_all (converts p) (enrolledFaces s) \<Longrightarrow>
   list_all (converts p) (enrolledFaces (snd (removeFace p lbl s)))"
  by (simp add: removeFace_def Let_def Map_delete_def list_all_iff)

lemma replay_converts:
  "list_all (converts p) (enrolledFaces s) \<Longrightarrow>
   list_all (converts p) (enrolledFaces (replay p ops s))"
proof (induction ops rule: rev_induct)
  case Nil
  then show ?case by (simp add: replay_def)
next
  case (snoc x ops)
  then show ?case
    by (cases x) (simp_all add: replay_snoc enrollFace_converts removeFace_converts)
qed


section \<open>Objects keep their own property order\<close>

lemma array_index_inj: "array_index k = Some i \<Longrightarrow> array_index k' = Some i \<Longrightarrow> k = k'"
  by (metis array_index_def option.distinct(1) option.inject)

lemma key_before_index:
  "array_index k = Some i \<Longrightarrow>
   key_before k k' = (case array_index k' of Some j \<Rightarrow> i < j | None \<Rightarrow> True)"
  by (simp add: key_before_def)

lemma key_before_name:
  "array_index k = None \<Longrightarrow> key_before k k' = (array_index k' = None)"
  by (simp add: key_before_def split: option.splits)

lemma put_index_keys: "fst ` set (put_index i k v ps) = insert k (fst ` set ps)"
proof (induction ps)
  case Nil
  show ?case by simp
next
  case (Cons e ps)
  obtain k' v' where e: "e = (k', v')" by (cases e)
  show ?case unfolding e using Cons.IH
    by (simp add: insert_commute split: option.splits)
qed

lemma put_index_map_of:
  "k \<notin> fst ` set ps \<Longrightarrow> map_of (put_index i k v ps) = (map_of ps)(k \<mapsto> v)"
proof (induction ps)
  case Nil
  show ?case by simp
next
  case (Cons e ps)
  obtain k' v' where e: "e = (k', v')" by (cases e)
  from Cons.prems have ne: "k' \<noteq> k" and notin: "k \<notin> fst ` set ps"
    by (auto simp: e)
  show ?case unfolding e using Cons.IH [OF notin] ne
    by (auto simp: fun_upd_twist split: option.splits)
qed

lemma put_index_values:
  "list_all P ps \<Longrightarrow> P (k, v) \<Longrightarrow> list_all P (put_index i k v ps)"
  by (induction ps) (auto split: option.splits)

lemma put_index_order:
  assumes "array_index k = Some i"
  shows "k \<notin> fst ` set ps \<Longrightarrow> own_order (map fst ps) \<Longrightarrow>
         own_order (map fst (put_index i k v ps))"
proof (induction ps)
  case Nil
  show ?case by (simp add: own_order_def)
next
  case (Cons e ps)
  obtain k' v' where e: "e = (k', v')" by (cases e)
  from Cons.prems have ne: "k' \<noteq> k" and notin: "k \<notin> fst ` set ps"
    by (auto simp: e)
  from Cons.prems(2) have tail: "own_order (map fst ps)"
    and fresh: "k' \<notin> fst ` set ps"
    and first: "\<forall>x \<in> fst ` set ps. key_before k' x"
    by (auto simp: own_order_def e)
  note IH = Cons.IH [OF notin tail]
  show ?case
  proof (cases "array_index k'")
    case None
    then have "\<forall>x \<in> fst ` set ps. key_before k x"
      using first assms by (auto simp: key_before_name key_before_index)
    moreover have "key_before k k'"
      using None assms by (simp add: key_before_index)
    ultimately show ?thesis
      using None tail fresh first ne notin
      by (auto simp: e own_order_def)
  next
    case (Some j)
    show ?thesis
    proof (cases "j < i")
      case True
      have "key_before k' k" using Some assms True by (simp add: key_before_index)
      with IH fresh first ne show ?thesis
        using Some True
        by (auto simp: e own_order_def put_index_keys)
    next
      case False
      have "i \<noteq> j" using array_index_inj [OF assms, of k'] Some ne by auto
      with False have lt: "i < j" by simp
      then have "key_before k k'" using Some assms by (simp add: key_before_index)
      moreover have "\<forall>x \<in> fst ` set ps. key_before k x"
      proof
        fix x assume "x \<in> fst ` set ps"
        with first have "key_before k' x" by blast
        then show "key_before k x"
          using Some assms lt by (auto simp: key_before_index split: option.splits)
      qed
      ultimately show ?thesis
        using Some False tail fresh first ne notin
        by (auto simp: e own_order_def)
    qed
  qed
qed

lemma put_index_append:
  assumes "array_index k = Some i"
  shows "\<forall>x \<in> fst ` set ps. key_before x k \<Longrightarrow> put_index i k v ps = ps @ [(k, v)]"
proof (induction ps)
  case Nil
  show ?case by simp
next
  case (Cons e ps)
  obtain k' v' where e: "e = (k', v')" by (cases e)
  from Cons.prems have "key_before k' k" by (simp add: e)
  then obtain j where "array_index k' = Some j" and "j < i"
    using assms by (auto simp: key_before_def split: option.splits)
  moreover from Cons.prems have "\<forall>x \<in> fst ` set ps. key_before x k" by simp
  ultimately show ?case using Cons.IH by (simp add: e)
qed

lemma Map_set_same_keys: "k \<in> fst ` set m \<Longrightarrow> map fst (Map_set k v m) = map fst m"
  by (induction m) force+

lemma Map_set_append: "k \<notin> fst ` set m \<Longrightarrow> Map_set k v m = m @ [(k, v)]"
  by (induction m) auto

lemma obj_define_keys: "fst ` set (obj_define ps k v) = insert k (fst ` set ps)"
  by (simp add: obj_define_def Map_set_keys put_index_keys Map_has_def split: option.splits)

lemma obj_define_map_of: "map_of (obj_define ps k v) = (map_of ps)(k \<mapsto> v)"
proof (cases "Map_has k ps")
  case True
  then show ?thesis by (simp add: obj_define_def Map_set_map_of)
next
  case False
  then have notin: "k \<notin> fst ` set ps" by (simp add: Map_has_def)
  then have "map_of ps k = None" by (simp add: map_of_eq_None_iff)
  then have "map_of (ps @ [(k, v)]) = (map_of ps)(k \<mapsto> v)"
    by (auto simp: map_add_def fun_eq_iff split: option.splits)
  with False notin show ?thesis
    by (simp add: obj_define_def put_index_map_of split: option.splits)
qed

lemma obj_define_values:
  "list_all P ps \<Longrightarrow> P (k, v) \<Longrightarrow> list_all P (obj_define ps k v)"
  by (simp add: obj_define_def Map_set_list_all put_index_values split: option.splits)

lemma obj_define_order:
  assumes "own_order (map fst ps)"
  shows "own_order (map fst (obj_define ps k v))"
proof (cases "Map_has k ps")
  case True
  then show ?thesis
    using assms by (simp add: obj_define_def Map_has_def Map_set_same_keys)
next
  case False
  then have notin: "k \<notin> fst ` set ps" by (simp add: Map_has_def)
  show ?thesis
  proof (cases "array_index k")
    case None
    then have "\<forall>x \<in> fst ` set ps. key_before x k"
      by (auto simp: key_before_def split: option.splits)
    with assms notin False None show ?thesis
      by (auto simp: obj_define_def own_order_def sorted_wrt_append)
  next
    case (Some i)
    with False put_index_order [OF Some notin assms] show ?thesis
      by (simp add: obj_define_def)
  qed
qed

lemma obj_define_append:
  assumes "own_order (map fst (ps @ [(k, v)]))"
  shows "obj_define ps k v = ps @ [(k, v)]"
proof -
  from assms have notin: "k \<notin> fst ` set ps"
    and before: "\<forall>x \<in> fst ` set ps. key_before x k"
    by (auto simp: own_order_def sorted_wrt_append)
  then show ?thesis
    by (simp add: obj_define_def Map_has_def put_index_append split: option.splits)
qed


lemma define_properties_snoc:
  "define_properties ps (es @ [e]) = obj_define (define_properties ps es) (fst e) (snd e)"
  by (simp add: define_properties_def)

lemma define_properties_order:
  "own_order (map fst ps) \<Longrightarrow> own_order (map fst (define_properties ps es))"
  by (induction es rule: rev_induct)
     (simp_all add: define_properties_snoc obj_define_order, simp add: define_properties_def)

lemma define_properties_values:
  "list_all P ps \<Longrightarrow> list_all P es \<Longrightarrow> list_all P (define_properties ps es)"
  by (induction es rule: rev_induct)
     (simp_all add: define_properties_snoc obj_define_values, simp add: define_properties_def)

lemma define_properties_keys:
  "fst ` set (define_properties ps es) = fst ` set ps \<union> fst ` set es"
  by (induction es rule: rev_induct)
     (auto simp: define_properties_snoc obj_define_keys define_properties_def)

lemma define_properties_map_of:
  "distinct (map fst es) \<Longrightarrow> map_of (define_properties [] es) = map_of es"
proof (induction es rule: rev_induct)
  case Nil
  show ?case by (simp add: define_properties_def)
next
  case (snoc e es)
  obtain k v where e: "e = (k, v)" by (cases e)
  from snoc.prems have notin: "k \<notin> fst ` set es" and d: "distinct (map fst es)"
    by (auto simp: e)
  from notin have "map_of es k = None" by (simp add: map_of_eq_None_iff)
  then have "map_of (es @ [(k, v)]) = (map_of es)(k \<mapsto> v)"
    by (auto simp: map_add_def fun_eq_iff split: option.splits)
  with snoc.IH [OF d] show ?case
    by (simp add: e define_properties_snoc obj_define_map_of)
qed

lemma own_order_butlast: "own_order (ks @ [k]) \<Longrightarrow> own_order ks"
  by (simp add: own_order_def sorted_wrt_append)

lemma define_properties_id:
  "own_order (map fst es) \<Longrightarrow> define_properties [] es = es"
proof (induction es rule: rev_induct)
  case Nil
  show ?case by (simp add: define_properties_def)
next
  case (snoc e es)
  obtain k v where e: "e = (k, v)" by (cases e)
  from snoc.prems have "own_order (map fst es)"
    by (simp add: own_order_butlast)
  with snoc.IH have "define_properties [] es = es" by simp
  moreover from snoc.prems have "obj_define es k v = es @ [(k, v)]"
    by (intro obj_define_append) (simp add: e)
  ultimately show ?case by (simp add: define_properties_snoc e)
qed

section \<open>Parsing what was written\<close>

lemma internalize_id: "js_value v \<Longrightarrow> internalize v = v"
proof (induction v rule: internalize.induct)
  case (1 xs)
  then have "map internalize xs = xs"
    by (simp add: list_all_iff map_idI)
  then show ?case by simp
next
  case (2 ps)
  from "2.prems" have order: "own_order (map fst ps)"
    and vals: "\<forall>e \<in> set ps. js_value (snd e)"
    by (simp_all add: list_all_iff)
  have "map (\<lambda>e. (fst e, internalize (snd e))) ps = ps"
    using "2.IH" vals by (intro map_idI) simp
  with order show ?case by (simp add: define_properties_id)
qed simp_all

lemma internalize_js_value: "js_value (internalize j)"
proof (induction j rule: internalize.induct)
  case (1 xs)
  then show ?case by (simp add: list_all_iff)
next
  case (2 ps)
  have "list_all (\<lambda>e. js_value (snd e)) (map (\<lambda>e. (fst e, internalize (snd e))) ps)"
    using "2.IH" by (simp add: list_all_iff)
  then have "list_all (\<lambda>e. js_value (snd e))
               (define_properties [] (map (\<lambda>e. (fst e, internalize (snd e))) ps))"
    by (intro define_properties_values) simp_all
  moreover have "own_order (map fst
               (define_properties [] (map (\<lambda>e. (fst e, internalize (snd e))) ps)))"
    by (intro define_properties_order) (simp add: own_order_def)
  ultimately show ?case by simp
qed simp_all

lemma Map_new_snoc: "Map_new (es @ [e]) = Map_set (fst e) (snd e) (Map_new es)"
  by (simp add: Map_new_def)

lemma Map_new_id: "distinct (map fst es) \<Longrightarrow> Map_new es = es"
proof (induction es rule: rev_induct)
  case Nil
  show ?case by (simp add: Map_new_def)
next
  case (snoc e es)
  then show ?case by (simp add: Map_new_snoc Map_set_append)
qed

lemma Map_new_values: "list_all P es \<Longrightarrow> list_all P (Map_new es)"
  by (induction es rule: rev_induct)
     (simp_all add: Map_new_snoc Map_set_list_all, simp add: Map_new_def)

lemma indexed_values: "list_all P xs \<Longrightarrow> list_all (\<lambda>e. P (snd e)) (indexed xs)"
  by (auto simp: indexed_def list_all_iff dest: set_zip_rightD)

lemma Object_entries_values:
  "js_value v \<Longrightarrow> Object_entries v = Inr es \<Longrightarrow> js_values es"
proof (cases v)
  case (JStr s)
  assume "Object_entries v = Inr es"
  with JStr have "es = indexed (map (\<lambda>c. JStr [c]) s)" by simp
  moreover have "list_all js_value (map (\<lambda>c. JStr [c]) s)" by (simp add: list_all_iff)
  ultimately show ?thesis by (simp add: js_values_def indexed_values)
next
  case (JArr xs)
  assume "js_value v" "Object_entries v = Inr es"
  with JArr show ?thesis by (auto simp: js_values_def indexed_values)
qed (auto simp: js_values_def)

section \<open>Stored values are values of the engine\<close>

lemma js_value_faceData:
  "js_value (JObj [(''descriptor'', Array_from d), (''label'', JStr lbl),
                   (''enrolledAt'', JStr now)])"
proof -
  have "array_index ''descriptor'' = None" "array_index ''label'' = None"
    "array_index ''enrolledAt'' = None"
    by (simp_all add: array_index_def is_digit_def)
  then have "own_order [''descriptor'', ''label'', ''enrolledAt'']"
    by (simp add: own_order_def key_before_def)
  moreover have "list_all js_value (map JNum d)" by (simp add: list_all_iff)
  ultimately show ?thesis by (simp add: Array_from_def)
qed

lemma loadEnrolledFaces_js_values:
  "js_values (enrolledFaces s) \<Longrightarrow> js_values (enrolledFaces (loadEnrolledFaces p s))"
proof -
  assume s: "js_values (enrolledFaces s)"
  have "js_values (Map_new es)" if "Object_entries (internalize j) = Inr es" for j es
    using Object_entries_values [OF internalize_js_value that]
    by (simp add: js_values_def Map_new_values)
  with s show ?thesis
    by (auto simp: loadEnrolledFaces_def loadEnrolledFaces_try_def Let_def JSON_parse_def
          js_values_def [of "[]"]
        split: sum.splits option.splits if_splits stored_text.splits)
qed

lemma reachable_js_values: "reachable p s \<Longrightarrow> js_values (enrolledFaces s)"
proof (induction rule: reachable.induct)
  case (constructed saved)
  show ?case
    unfolding FaceRecognizer_def
    by (rule loadEnrolledFaces_js_values) (simp add: js_values_def)
next
  case (enrolled s now faceDescriptor lbl)
  from enrolled.IH show ?case
    by (auto simp: enrollFace_def Let_def js_values_def Map_set_list_all js_value_faceData
          simp del: js_value.simps split: option.splits)
next
  case (removed s lbl)
  from removed.IH show ?case
    by (simp add: removeFace_def Let_def js_values_def Map_delete_def list_all_iff)
next
  case (cleared s)
  show ?case by (simp add: clearAllFaces_def Let_def js_values_def)
next
  case (stored s saved)
  then show ?case by simp
qed


section \<open>Claims about persistence\<close>

lemma saved_object_js_value:
  "js_values m \<Longrightarrow> js_value (Object_fromEntries m)"
proof -
  assume "js_values m"
  then have "list_all (\<lambda>e. js_value (snd e)) (define_properties [] m)"
    unfolding js_values_def by (intro define_properties_values) simp_all
  moreover have "own_order (map fst (define_properties [] m))"
    by (intro define_properties_order) (simp add: own_order_def)
  ultimately show ?thesis by (simp add: Object_fromEntries_def)
qed

lemma serialized_js_value: "js_value v \<Longrightarrow> js_value (serialized v)"
proof (induction v rule: serialized.induct)
  case (2 xs)
  then show ?case by (simp add: list_all_iff)
next
  case (3 ps)
  then show ?case by (auto simp: list_all_iff comp_def)
qed simp_all

lemma serialized_id: "all_finite v \<Longrightarrow> serialized v = v"
proof (induction v rule: serialized.induct)
  case (2 xs)
  then show ?case by (simp add: list_all_iff map_idI)
next
  case (3 ps)
  then have "map (\<lambda>e. (fst e, serialized (snd e))) ps = ps"
    by (intro map_idI) (simp add: list_all_iff)
  then show ?case by simp
qed simp_all

lemma map_of_map_values:
  "map_of (map (\<lambda>e. (fst e, f (snd e))) ps) k = map_option f (map_of ps k)"
  by (induction ps) auto

lemma FaceRecognizer_of_saved:
  assumes "js_values m"
  shows "enrolledFaces (FaceRecognizer p (Some (JSON_stringify (Object_fromEntries m))))
           = map (\<lambda>e. (fst e, serialized (snd e))) (define_properties [] m)"
proof -
  let ?ps = "define_properties [] m"
  let ?qs = "map (\<lambda>e. (fst e, serialized (snd e))) ?ps"
  have "js_value (serialized (Object_fromEntries m))"
    using saved_object_js_value [OF assms] by (rule serialized_js_value)
  then have v: "js_value (JObj ?qs)"
    by (simp add: Object_fromEntries_def)
  then have parse: "internalize (JObj ?qs) = JObj ?qs"
    by (rule internalize_id)
  from v have "distinct (map fst ?qs)" by (simp add: own_order_def)
  then have "Map_new ?qs = ?qs" by (rule Map_new_id)
  with parse show ?thesis
    by (simp add: FaceRecognizer_def loadEnrolledFaces_def loadEnrolledFaces_try_def
          JSON_stringify_def Object_fromEntries_def JSON_parse_def truthy_def Let_def
          del: internalize.simps)
qed

text \<open>
  Claim C8, as amended. Take any state the application can reach and a storage that
  accepts its serialisation. After \<^verbatim>\<open>saveEnrolledFaces\<close>, a new recognizer, which
  loads in its constructor, holds the same set of labels, and under every label the
  saved value as \<^verbatim>\<open>JSON.stringify\<close> writes it: NaN, Infinity and -Infinity have
  become \<^verbatim>\<open>null\<close>. When every number stored is finite, the value under every
  label, hence every descriptor, is the one that was saved; numbers being reals or
  not finite here, the descriptors are then equal, not merely close.
\<close>

theorem save_then_load_round_trip:
  assumes "reachable p s"
    and "setItem_accepts p (JSON_stringify (Object_fromEntries (enrolledFaces s)))"
  shows "set (getEnrolledFaces (FaceRecognizer p (localStorage (saveEnrolledFaces p s))))
           = set (getEnrolledFaces s) \<and>
         (\<forall>lbl. map_of (enrolledFaces (FaceRecognizer p (localStorage (saveEnrolledFaces p s)))) lbl
                  = map_option serialized (map_of (enrolledFaces s) lbl)) \<and>
         (list_all (\<lambda>e. all_finite (snd e)) (enrolledFaces s) \<longrightarrow>
            (\<forall>lbl. map_of (enrolledFaces
                              (FaceRecognizer p (localStorage (saveEnrolledFaces p s)))) lbl
                     = map_of (enrolledFaces s) lbl))"
proof -
  let ?m = "enrolledFaces s"
  let ?r = "enrolledFaces (FaceRecognizer p (localStorage (saveEnrolledFaces p s)))"
  have stored: "localStorage (saveEnrolledFaces p s)
                  = Some (JSON_stringify (Object_fromEntries ?m))"
    using assms(2) by (simp add: saveEnrolledFaces_localStorage)
  have loaded: "?r = map (\<lambda>e. (fst e, serialized (snd e))) (define_properties [] ?m)"
    unfolding stored using reachable_js_values [OF assms(1)] by (rule FaceRecognizer_of_saved)
  have "fst ` set (define_properties [] ?m) = fst ` set ?m"
    by (simp add: define_properties_keys)
  then have labels: "set (getEnrolledFaces (FaceRecognizer p (localStorage (saveEnrolledFaces p s))))
                       = set (getEnrolledFaces s)"
    by (simp add: loaded getEnrolledFaces_def Map_keys_def comp_def)
  have "map_of (define_properties [] ?m) = map_of ?m"
    using reachable_distinct [OF assms(1)] by (rule define_properties_map_of)
  then have reloaded: "map_of ?r lbl = map_option serialized (map_of ?m lbl)" for lbl
    by (simp add: loaded map_of_map_values)
  have same: "map_of ?r lbl = map_of ?m lbl"
    if fin: "list_all (\<lambda>e. all_finite (snd e)) ?m" for lbl
  proof (cases "map_of ?m lbl")
    case None
    with reloaded [of lbl] show ?thesis by simp
  next
    case (Some v)
    then have "(lbl, v) \<in> set ?m" by (rule map_of_SomeD)
    with fin have "all_finite v" by (auto simp: list_all_iff)
    then have "serialized v = v" by (rule serialized_id)
    with reloaded [of lbl] Some show ?thesis by simp
  qed
  from labels reloaded same show ?thesis by blast
qed

text \<open>Two enrolled faces, one of them under a label that is an array index.\<close>

lemma bob_seven_store_reachable: "reachable demo_platform bob_seven_store"
  unfolding bob_seven_store_def by (intro reachable.enrolled reachable.constructed)

lemma bob_seven_store_entries:
  "enrolledFaces bob_seven_store =
     [(''Bob'', JObj [(''descriptor'', JArr [JNum (Finite 5), JNum (Finite 6)]),
                     (''label'', JStr ''Bob''),
                     (''enrolledAt'', JStr ''2024-01-03T00:00:00.000Z'')]),
      (''7'', JObj [(''descriptor'', JArr [JNum (Finite 7), JNum (Finite 7)]),
                   (''label'', JStr ''7''),
                   (''enrolledAt'', JStr ''2024-01-04T00:00:00.000Z'')])]"
  by (simp add: bob_seven_store_def FaceRecognizer_None enrollFace_def Let_def Array_from_def)

theorem save_then_load_round_trip_witness:
  "reachable demo_platform bob_seven_store \<and>
   setItem_accepts demo_platform
     (JSON_stringify (Object_fromEntries (enrolledFaces bob_seven_store))) \<and>
   list_all (\<lambda>e. all_finite (snd e)) (enrolledFaces bob_seven_store) \<and>
   getEnrolledFaces bob_seven_store = [''Bob'', ''7''] \<and>
   set (getEnrolledFaces
          (FaceRecognizer demo_platform
             (localStorage (saveEnrolledFaces demo_platform bob_seven_store))))
     = {''Bob'', ''7''} \<and>
   map_of (enrolledFaces
             (FaceRecognizer demo_platform
                (localStorage (saveEnrolledFaces demo_platform bob_seven_store)))) ''7''
     = Some (JObj [(''descriptor'', JArr [JNum (Finite 7), JNum (Finite 7)]),
                   (''label'', JStr ''7''),
                   (''enrolledAt'', JStr ''2024-01-04T00:00:00.000Z'')])"
proof -
  have a: "setItem_accepts demo_platform
             (JSON_stringify (Object_fromEntries (enrolledFaces bob_seven_store)))"
    by (simp add: demo_platform_def unlimited_def)
  have f: "list_all (\<lambda>e. all_finite (snd e)) (enrolledFaces bob_seven_store)"
    by (simp add: bob_seven_store_entries)
  have l: "getEnrolledFaces bob_seven_store = [''Bob'', ''7'']"
    by (simp add: getEnrolledFaces_def Map_keys_def bob_seven_store_entries)
  have m: "map_of (enrolledFaces bob_seven_store) ''7''
             = Some (JObj [(''descriptor'', JArr [JNum (Finite 7), JNum (Finite 7)]),
                           (''label'', JStr ''7''),
                           (''enrolledAt'', JStr ''2024-01-04T00:00:00.000Z'')])"
    by (simp add: bob_seven_store_entries)
  from save_then_load_round_trip [OF bob_seven_store_reachable a]
       bob_seven_store_reachable a f l m
  show ?thesis by auto
qed

text \<open>The reloaded map lists the label \<^verbatim>\<open>7\<close>, an array index, before Bob.\<close>

lemma reloaded_order:
  "getEnrolledFaces
     (FaceRecognizer demo_platform
        (localStorage (saveEnrolledFaces demo_platform bob_seven_store)))
   = [''7'', ''Bob'']"
proof -
  have "js_values (enrolledFaces bob_seven_store)"
    using bob_seven_store_reachable by (rule reachable_js_values)
  then have "enrolledFaces
     (FaceRecognizer demo_platform
        (Some (JSON_stringify (Object_fromEntries (enrolledFaces bob_seven_store)))))
     = map (\<lambda>e. (fst e, serialized (snd e)))
         (define_properties [] (enrolledFaces bob_seven_store))"
    by (rule FaceRecognizer_of_saved)
  then show ?thesis
    by (simp add: saveEnrolledFaces_def Let_def demo_platform_def unlimited_def
          getEnrolledFaces_def Map_keys_def bob_seven_store_entries define_properties_def
          obj_define_def Map_has_def array_index_def is_digit_def nat_of_digits_def
          digit_value_def digit_char_def string_of_nat.simps)
qed

text \<open>A store whose only descriptor holds NaN.\<close>

lemma nan_store_reachable: "reachable demo_platform nan_store"
  unfolding nan_store_def by (intro reachable.enrolled reachable.constructed)

lemma nan_store_entries:
  "enrolledFaces nan_store =
     [(''Alice'', JObj [(''descriptor'', JArr [JNum (Finite 1), JNum NaN]),
                       (''label'', JStr ''Alice''),
                       (''enrolledAt'', JStr ''2024-01-05T00:00:00.000Z'')])]"
  by (simp add: nan_store_def FaceRecognizer_None enrollFace_def Let_def Array_from_def)

text \<open>
  Claim C8 as stated fails for a descriptor that holds NaN: the stored item has
  \<^verbatim>\<open>null\<close> in its place, and so has the descriptor of the new recognizer.
\<close>

theorem save_then_load_nan_counterexample:
  "map_of (enrolledFaces nan_store) ''Alice''
     = Some (JObj [(''descriptor'', JArr [JNum (Finite 1), JNum NaN]),
                   (''label'', JStr ''Alice''),
                   (''enrolledAt'', JStr ''2024-01-05T00:00:00.000Z'')]) \<and>
   map_of (enrolledFaces
             (FaceRecognizer demo_platform
                (localStorage (saveEnrolledFaces demo_platform nan_store)))) ''Alice''
     = Some (JObj [(''descriptor'', JArr [JNum (Finite 1), JNull]),
                   (''label'', JStr ''Alice''),
                   (''enrolledAt'', JStr ''2024-01-05T00:00:00.000Z'')]) \<and>
   JArr [JNum (Finite 1), JNull] \<noteq> JArr [JNum (Finite 1), JNum NaN]"
proof -
  have "js_values (enrolledFaces nan_store)"
    using nan_store_reachable by (rule reachable_js_values)
  then have "enrolledFaces
     (FaceRecognizer demo_platform
        (Some (JSON_stringify (Object_fromEntries (enrolledFaces nan_store)))))
     = map (\<lambda>e. (fst e, serialized (snd e))) (define_properties [] (enrolledFaces nan_store))"
    by (rule FaceRecognizer_of_saved)
  then show ?thesis
    by (simp add: saveEnrolledFaces_def Let_def demo_platform_def unlimited_def
          nan_store_entries define_properties_def obj_define_def Map_has_def array_index_def
          is_digit_def)
qed

text \<open>
  Claim C9, as amended. \<^verbatim>\<open>loadEnrolledFaces\<close> always returns a state, since its
  handler catches whatever the \<^verbatim>\<open>try\<close> block throws. An absent or empty item
  leaves the state as it is. A text that \<^verbatim>\<open>JSON.parse\<close> rejects, and the text
  \<^verbatim>\<open>null\<close>, empty the map of enrolled faces and put the error on the console. Every
  other JSON text, whatever its shape, installs the entries of the parsed value as
  they are, and no loading error is reported.
\<close>

theorem loadEnrolledFaces_outcomes:
  "(localStorage s = None \<or> localStorage s = Some EmptyText \<longrightarrow> loadEnrolledFaces p s = s) \<and>
   (localStorage s = Some NonJsonText \<or> localStorage s = Some (JsonText JNull) \<longrightarrow>
      (\<exists>e. loadEnrolledFaces p s
              = s\<lparr>console := console s @ [ErrorLoading e], enrolledFaces := []\<rparr>)) \<and>
   (\<forall>j. localStorage s = Some (JsonText j) \<and> j \<noteq> JNull \<longrightarrow>
      (\<exists>entries. Object_entries (internalize j) = Inr entries \<and>
         enrolledFaces (loadEnrolledFaces p s) = Map_new entries \<and>
         (\<forall>e. ErrorLoading e \<in> set (console (loadEnrolledFaces p s))
                \<longrightarrow> ErrorLoading e \<in> set (console s))))"
proof (intro conjI allI impI)
  assume "localStorage s = None \<or> localStorage s = Some EmptyText"
  then show "loadEnrolledFaces p s = s"
    by (auto simp: loadEnrolledFaces_def loadEnrolledFaces_try_def truthy_def)
next
  assume "localStorage s = Some NonJsonText \<or> localStorage s = Some (JsonText JNull)"
  then show "\<exists>e. loadEnrolledFaces p s
                   = s\<lparr>console := console s @ [ErrorLoading e], enrolledFaces := []\<rparr>"
    by (auto simp: loadEnrolledFaces_def loadEnrolledFaces_try_def truthy_def JSON_parse_def)
next
  fix j
  assume a: "localStorage s = Some (JsonText j) \<and> j \<noteq> JNull"
  then have "internalize j \<noteq> JNull" by (cases j) simp_all
  then obtain entries where en: "Object_entries (internalize j) = Inr entries"
    by (cases "internalize j") simp_all
  have "\<forall>e. ErrorLoading e \<in> set (console (updateFaceMatcher p t))
               \<longrightarrow> ErrorLoading e \<in> set (console t)" for t
    by (auto simp: updateFaceMatcher_def split: sum.splits if_splits)
  from this [of "s\<lparr>enrolledFaces := Map_new entries\<rparr>"] a en show "\<exists>entries. Object_entries (internalize j) = Inr entries \<and>
         enrolledFaces (loadEnrolledFaces p s) = Map_new entries \<and>
         (\<forall>e. ErrorLoading e \<in> set (console (loadEnrolledFaces p s))
                \<longrightarrow> ErrorLoading e \<in> set (console s))"
    by (simp add: loadEnrolledFaces_def loadEnrolledFaces_try_def truthy_def JSON_parse_def
          Let_def)
qed


text \<open>A store with Alice enrolled loads a text that does not parse, then an array.\<close>

theorem loadEnrolledFaces_outcomes_witness:
  "localStorage (alice_store\<lparr>localStorage := Some NonJsonText\<rparr>) = Some NonJsonText \<and>
   enrolledFaces (alice_store\<lparr>localStorage := Some NonJsonText\<rparr>) \<noteq> [] \<and>
   enrolledFaces (loadEnrolledFaces demo_platform
                    (alice_store\<lparr>localStorage := Some NonJsonText\<rparr>)) = [] \<and>
   localStorage (alice_store\<lparr>localStorage := Some (JsonText (JArr [JNull]))\<rparr>)
     = Some (JsonText (JArr [JNull])) \<and> JArr [JNull] \<noteq> JNull \<and>
   enrolledFaces (loadEnrolledFaces demo_platform
                    (alice_store\<lparr>localStorage := Some (JsonText (JArr [JNull]))\<rparr>))
     = [(''0'', JNull)]"
proof -
  let ?s = "alice_store\<lparr>localStorage := Some NonJsonText\<rparr>"
  let ?t = "alice_store\<lparr>localStorage := Some (JsonText (JArr [JNull]))\<rparr>"
  have h: "localStorage ?s = Some NonJsonText" by simp
  have n: "enrolledFaces ?s \<noteq> []" by (simp add: alice_store_eq)
  have k: "localStorage ?t = Some (JsonText (JArr [JNull])) \<and> JArr [JNull] \<noteq> JNull" by simp
  have e: "Object_entries (internalize (JArr [JNull])) = Inr [(''0'', JNull)]"
    by (simp add: indexed_def string_of_nat.simps digit_char_def)
  have m: "Map_new [(''0'', JNull)] = [(''0'', JNull)]" by (simp add: Map_new_def)
  from loadEnrolledFaces_outcomes [of ?s demo_platform]
       loadEnrolledFaces_outcomes [of ?t demo_platform] h n k e m
  show ?thesis by auto
qed

text \<open>
  Claim C9 as stated fails on a text that parses and is malformed: the stored object
  gives Alice the number 5 in place of a face record, and the new recognizer keeps
  that entry and reports no error.
\<close>

theorem loadEnrolledFaces_malformed_counterexample:
  "enrolledFaces (FaceRecognizer demo_platform (Some (JsonText (JObj [(''Alice'', JNum (Finite 5))]))))
     \<noteq> [] \<and>
   console (FaceRecognizer demo_platform (Some (JsonText (JObj [(''Alice'', JNum (Finite 5))]))))
     = [MatcherUpdated 1, LoadedFaces 1]"
  by (simp add: FaceRecognizer_def loadEnrolledFaces_def loadEnrolledFaces_try_def truthy_def
        JSON_parse_def Let_def define_properties_def obj_define_def Map_has_def array_index_def
        is_digit_def Map_new_def updateFaceMatcher_def labeledDescriptor_def
        Float32Array_new_def)


section \<open>The descriptor is copied\<close>

lemma deref_write: "r' \<noteq> r \<Longrightarrow> deref (h[r := d']) r' = deref h r'"
  by (simp add: deref_def)

lemma deref_alloc: "r' < length h \<Longrightarrow> deref (h @ [x]) r' = deref h r'"
  by (simp add: deref_def nth_append)

lemma face_value_write:
  "r \<notin> set (face_refs f) \<Longrightarrow> face_value (h[r := d']) f = face_value h f"
  by (cases f) (simp_all add: deref_write)

lemma face_value_alloc:
  "\<forall>r' \<in> set (face_refs f). r' < length h \<Longrightarrow> face_value (h @ [x]) f = face_value h f"
  by (cases f) (simp_all add: deref_alloc)

lemma view_write: "r \<notin> set (owned t) \<Longrightarrow> view (h[r := d']) t = view h t"
  by (simp add: view_def owned_def face_value_write)

lemma view_alloc: "\<forall>r' \<in> set (owned t). r' < length h \<Longrightarrow> view (h @ [x]) t = view h t"
  by (simp add: view_def owned_def face_value_alloc)

lemma Map_set_map:
  "map (\<lambda>e. (fst e, g (snd e))) (Map_set k v m)
     = Map_set k (g v) (map (\<lambda>e. (fst e, g (snd e))) m)"
  by (induction m) auto

lemma Map_set_subset: "set (Map_set k v m) \<subseteq> insert (k, v) (set m)"
  by (induction m) (auto split: if_splits)

lemma owned_Map_set:
  "set (concat (map (\<lambda>e. face_refs (snd e)) (Map_set k v m)))
     \<subseteq> set (face_refs v) \<union> set (concat (map (\<lambda>e. face_refs (snd e)) m))"
  using Map_set_subset [of k v m] by fastforce

lemma view_fields [simp]:
  "faceMatcher (view h t) = faceMatcher_refs t"
  "localStorage (view h t) = localStorage_refs t"
  "console (view h t) = console_refs t"
  by (simp_all add: view_def)

lemma view_updateFaceMatcher:
  "view h (updateFaceMatcher_refs p h t) = updateFaceMatcher p (view h t)"
  by (simp add: updateFaceMatcher_refs_def Let_def view_def updateFaceMatcher_def
      split: sum.splits)

lemma view_saveEnrolledFaces:
  "view h (saveEnrolledFaces_refs p h t) = saveEnrolledFaces p (view h t)"
  by (simp add: saveEnrolledFaces_refs_def Let_def view_def saveEnrolledFaces_def)

lemma owned_updateFaceMatcher [simp]: "owned (updateFaceMatcher_refs p h t) = owned t"
  by (simp add: updateFaceMatcher_refs_def Let_def owned_def)

lemma owned_saveEnrolledFaces [simp]: "owned (saveEnrolledFaces_refs p h t) = owned t"
  by (simp add: saveEnrolledFaces_refs_def Let_def owned_def)

lemma owned_console [simp]: "owned (t\<lparr>console_refs := c\<rparr>) = owned t"
  by (simp add: owned_def)

lemma view_console: "view h (t\<lparr>console_refs := c\<rparr>) = (view h t)\<lparr>console := c\<rparr>"
  by (simp add: view_def)

text \<open>
  Claim C10. \<^verbatim>\<open>enrollFace\<close> stores a copy of the descriptor it is given: the
  elements are read at the call into a new array. Let the caller's descriptor be a
  live array \<open>r\<close> that is none of the arrays the recognizer created. After the call
  the recognizer is in the state that enrolling the contents of \<open>r\<close> at call time
  gives, and whatever the caller writes to \<open>r\<close> afterwards, every stored
  descriptor, the matcher and the stored item are as before, and so is whatever a
  later \<^verbatim>\<open>updateFaceMatcher\<close> or \<^verbatim>\<open>saveEnrolledFaces\<close> computes from them.
\<close>

theorem enrollFace_copies_descriptor:
  assumes "r < length h" and "lbl \<noteq> []"
    and "\<forall>r' \<in> set (owned t). r' < length h \<and> r' \<noteq> r"
  shows "case enrollFace_refs p now h (Some r) lbl t of
           (result, h1, t1) \<Rightarrow>
             result = Inr True \<and>
             view h1 t1 = snd (enrollFace p now (Some (deref h r)) lbl (view h t)) \<and>
             (\<forall>r' \<in> set (owned t1). r' < length h1 \<and> r' \<noteq> r) \<and>
             (\<forall>d'. view (h1[r := d']) t1 = view h1 t1 \<and>
                   updateFaceMatcher_refs p (h1[r := d']) t1 = updateFaceMatcher_refs p h1 t1 \<and>
                   saveEnrolledFaces_refs p (h1[r := d']) t1 = saveEnrolledFaces_refs p h1 t1)"
proof -
  let ?h1 = "h @ [deref h r]"
  let ?ta = "t\<lparr>enrolledFaces_refs :=
                 Map_set lbl (FaceData (length h) lbl now) (enrolledFaces_refs t)\<rparr>"
  let ?tb = "updateFaceMatcher_refs p ?h1 ?ta"
  let ?tc = "saveEnrolledFaces_refs p ?h1 ?tb"
  let ?t1 = "?tc\<lparr>console_refs := console_refs ?tc @ [FaceEnrolled lbl]\<rparr>"
  have run: "enrollFace_refs p now h (Some r) lbl t = (Inr True, ?h1, ?t1)"
    using assms(2) by (simp add: enrollFace_refs_def Array_from_ref_def Let_def)
  have valid: "\<forall>r' \<in> set (owned t). r' < length h" using assms(3) by blast
  have own_a: "set (owned ?ta) \<subseteq> {length h} \<union> set (owned t)"
    using owned_Map_set [of lbl "FaceData (length h) lbl now" "enrolledFaces_refs t"]
    by (simp add: owned_def)
  then have own1: "\<forall>r' \<in> set (owned ?t1). r' < length ?h1 \<and> r' \<noteq> r"
    using assms(1,3) by fastforce
  have new: "face_value ?h1 (FaceData (length h) lbl now)
          = JObj [(''descriptor'', Array_from (deref h r)), (''label'', JStr lbl),
                  (''enrolledAt'', JStr now)]"
    by (simp add: deref_def)
  have old: "map (\<lambda>e. (fst e, face_value ?h1 (snd e))) (enrolledFaces_refs t)
               = map (\<lambda>e. (fst e, face_value h (snd e))) (enrolledFaces_refs t)"
    using valid by (simp add: owned_def face_value_alloc)
  have view_a: "view ?h1 ?ta
     = (view h t)\<lparr>enrolledFaces :=
          Map_set lbl (JObj [(''descriptor'', Array_from (deref h r)), (''label'', JStr lbl),
                            (''enrolledAt'', JStr now)]) (enrolledFaces (view h t))\<rparr>"
    unfolding view_def by (simp add: Map_set_map old new del: face_value.simps)
  have c: "console_refs ?tc = console (saveEnrolledFaces p (updateFaceMatcher p (view ?h1 ?ta)))"
    using view_fields(3) [of ?h1 ?tc, symmetric]
    by (simp only: view_saveEnrolledFaces view_updateFaceMatcher)
  have refine: "view ?h1 ?t1 = snd (enrollFace p now (Some (deref h r)) lbl (view h t))"
    using assms(2)
    by (simp only: view_console view_saveEnrolledFaces view_updateFaceMatcher c)
       (simp add: view_a enrollFace_def Let_def)
  have later: "view (?h1[r := d']) ?t1 = view ?h1 ?t1" for d'
    using own1 by (intro view_write) blast
  then have "updateFaceMatcher_refs p (?h1[r := d']) ?t1 = updateFaceMatcher_refs p ?h1 ?t1"
    and "saveEnrolledFaces_refs p (?h1[r := d']) ?t1 = saveEnrolledFaces_refs p ?h1 ?t1" for d'
    by (simp_all add: updateFaceMatcher_refs_def saveEnrolledFaces_refs_def)
  with later refine own1 show ?thesis
    unfolding run by simp
qed


text \<open>The caller enrolls the array \<open>[1, 2]\<close>, then overwrites it with \<open>[9, 9]\<close>.\<close>

theorem enrollFace_copies_descriptor_witness:
  "(0 :: nat) < length [ [Finite 1, Finite 2] ] \<and> ''Alice'' \<noteq> [] \<and>
   owned \<lparr>enrolledFaces_refs = [], faceMatcher_refs = None, localStorage_refs = None,
          console_refs = []\<rparr> = [] \<and>
   (case enrollFace_refs demo_platform ''2024-01-01T00:00:00.000Z'' [ [Finite 1, Finite 2] ] (Some 0) ''Alice''
           \<lparr>enrolledFaces_refs = [], faceMatcher_refs = None, localStorage_refs = None,
              console_refs = []\<rparr> of
      (result, h1, t1) \<Rightarrow>
        result = Inr True \<and>
        deref (h1[0 := [Finite 9, Finite 9] ]) 0 = [Finite 9, Finite 9] \<and>
        enrolledFaces (view (h1[0 := [Finite 9, Finite 9] ]) t1)
          = [(''Alice'', JObj [(''descriptor'', JArr [JNum (Finite 1), JNum (Finite 2)]), (''label'', JStr ''Alice''),
                              (''enrolledAt'', JStr ''2024-01-01T00:00:00.000Z'')])])"
proof -
  let ?t = "\<lparr>enrolledFaces_refs = [], faceMatcher_refs = None, localStorage_refs = None,
             console_refs = []\<rparr>"
  have a: "(0 :: nat) < length [ [Finite 1, Finite 2] ]" by simp
  have b: "''Alice'' \<noteq> []" by simp
  have o: "owned ?t = []" by (simp add: owned_def)
  then have c: "\<forall>r' \<in> set (owned ?t). r' < length [ [Finite 1, Finite 2] ] \<and> r' \<noteq> 0" by simp
  have v: "view [ [Finite 1, Finite 2] ] ?t
             = \<lparr>enrolledFaces = [], faceMatcher = None, localStorage = None, console = []\<rparr>"
    by (simp add: view_def)
  have e: "enrolledFaces (snd (enrollFace demo_platform ''2024-01-01T00:00:00.000Z''
                                 (Some [Finite 1, Finite 2]) ''Alice'' (view [ [Finite 1, Finite 2] ] ?t)))
             = [(''Alice'', JObj [(''descriptor'', JArr [JNum (Finite 1), JNum (Finite 2)]),
                                 (''label'', JStr ''Alice''),
                                 (''enrolledAt'', JStr ''2024-01-01T00:00:00.000Z'')])]"
    unfolding v by (simp add: enrollFace_def Let_def Array_from_def)
  have d: "deref [ [Finite 1, Finite 2] ] 0 = [Finite 1, Finite 2]" by (simp add: deref_def)
  from enrollFace_copies_descriptor [OF a b c, of demo_platform "''2024-01-01T00:00:00.000Z''"]
       a b o e d
  show ?thesis
    by (auto simp: enrollFace_refs_def Array_from_ref_def Let_def deref_def)
qed


end
